theory Spec2Isabelle
  imports Main "HOL-Library.AList"
begin

section \<open>JavaScript values\<close>

text \<open>
  The values that flow through the tracer (\<open>tracers/log_stream.ts\<close>) and through the
  marshalling functions (\<open>runnables/remote.ts\<close>) are untyped JavaScript values. A plain
  object is an association list in key order, with pairwise distinct keys. Numbers only
  pass through the code, so an integer stands for them; a \<open>Date\<close> is its epoch time.

  Modelled from the spec: the domain classes (messages, documents, generation chunks,
  prompt values) are not among the sources, and the specification names them without
  their fields. An instance \<open>JNew c fields\<close> is the class together with its own
  enumerable fields, in key order; a field it does not have reads as \<open>undefined\<close>.
  What a constructor makes of its arguments is not modelled: where \<open>revive\<close> calls
  one, the call is a parameter that returns the instance or raises. The chunk that the
  tracer wraps around a token is written with the one field it is given.
\<close>

datatype cls =
    Document
  | HumanMessage | SystemMessage | ChatMessage | FunctionMessage | ToolMessage | AIMessage
  | HumanMessageChunk | SystemMessageChunk | ChatMessageChunk | FunctionMessageChunk
  | ToolMessageChunk | AIMessageChunk
  | ChatGenerationChunk | GenerationChunk
  | ChatPromptValue | StringPromptValue

datatype jsval =
    JUndefined
  | JNull
  | JBool bool
  | JNum int
  | JStr string
  | JDate int
  | JArr "jsval list"
  | JObj "(string \<times> jsval) list"
  | JNew cls "(string \<times> jsval) list"

datatype error = Error string | TypeError string

text \<open>\<open>Object.keys(o)\<close> and the property read \<open>o.k\<close> (\<open>undefined\<close> when there is no such key).\<close>

definition Object_keys :: "(string \<times> jsval) list \<Rightarrow> string list" where
  "Object_keys kvs = map fst kvs"

definition get :: "(string \<times> jsval) list \<Rightarrow> string \<Rightarrow> jsval" where
  "get kvs k = (case map_of kvs k of None \<Rightarrow> JUndefined | Some v \<Rightarrow> v)"

section \<open>Runs\<close>

text \<open>
  The \<open>Run\<close> descriptor of \<open>tracers/base.ts\<close>, with the fields the tracer reads:
  \<open>tags\<close> and \<open>outputs\<close> are optional, \<open>extra_metadata\<close> is \<open>run.extra?.metadata\<close>,
  the times are epoch numbers.
\<close>

record Run =
  run_id :: string
  name :: string
  run_type :: string
  tags :: "string list option"
  extra_metadata :: "jsval option"
  start_time :: int
  end_time :: "int option"
  inputs :: "(string \<times> jsval) list"
  outputs :: "(string \<times> jsval) list option"

datatype SchemaFormat = Original | StreamingEvents

section \<open>Standardization layer\<close>

definition getStandardizedInputs :: "Run \<Rightarrow> SchemaFormat \<Rightarrow> error + jsval" where
  "getStandardizedInputs run schemaFormat =
     (if schemaFormat = Original then
        Inl (Error (''Do not assign inputs with original schema drop the key for now. '' @
                    ''When inputs are added to streamLog they should be added with '' @
                    ''standardized schema for streaming events.''))
      else if run_type run \<in> set [''retriever'', ''llm'', ''prompt''] then
        Inr (JObj (inputs run))
      else if length (Object_keys (inputs run)) = 1 \<and> get (inputs run) ''input'' = JStr '''' then
        Inr JUndefined
      else Inr (get (inputs run) ''input''))"

text \<open>The value of \<open>run.outputs\<close>: the mapping, or \<open>undefined\<close> while the run has none.\<close>

definition outputs_value :: "Run \<Rightarrow> jsval" where
  "outputs_value run = (case outputs run of None \<Rightarrow> JUndefined | Some kvs \<Rightarrow> JObj kvs)"

definition getStandardizedOutputs :: "Run \<Rightarrow> SchemaFormat \<Rightarrow> jsval" where
  "getStandardizedOutputs run schemaFormat =
     (if schemaFormat = Original then outputs_value run
      else if run_type run \<in> set [''retriever'', ''llm'', ''prompt''] then outputs_value run
      else (case outputs run of
              None \<Rightarrow> outputs_value run
            | Some kvs \<Rightarrow>
                if length (Object_keys kvs) = 1 \<and> get kvs ''output'' \<noteq> JUndefined
                then get kvs ''output''
                else outputs_value run))"

section \<open>The tracer and its inclusion filter\<close>

record JSONPatchOperation =
  op :: string
  path :: string
  val :: jsval

record RunLogPatch =
  ops :: "JSONPatchOperation list"

record RunLog = RunLogPatch +
  state :: jsval

text \<open>
  The fields of \<open>LogStreamCallbackHandler\<close>. The output channel is the list of patches
  written so far and a flag that the writer was closed. \<open>toISOString\<close> stands for
  \<open>new Date(t).toISOString()\<close> of the JavaScript library. The two maps are dictionaries
  of the keys the tracer stored; a read of a key that \<open>Object.prototype\<close> supplies is
  outside the model.
\<close>

record LogStreamCallbackHandler =
  autoClose :: bool
  includeNames :: "string list option"
  includeTypes :: "string list option"
  includeTags :: "string list option"
  excludeNames :: "string list option"
  excludeTypes :: "string list option"
  excludeTags :: "string list option"
  schemaFormat :: SchemaFormat
  rootId :: "string option"
  keyMapByRunId :: "string \<rightharpoonup> string"
  counterMapByRunName :: "string \<rightharpoonup> nat"
  toISOString :: "int \<Rightarrow> string"
  written :: "RunLogPatch list"
  closed :: bool

text \<open>\<open>xs?.includes(x)\<close> as a condition: false when \<open>xs\<close> is \<open>undefined\<close>.\<close>

definition array_includes :: "string list option \<Rightarrow> string \<Rightarrow> bool" where
  "array_includes xs x = (case xs of None \<Rightarrow> False | Some l \<Rightarrow> x \<in> set l)"

text \<open>\<open>run.tags ?? []\<close>\<close>

definition run_tags :: "Run \<Rightarrow> string list" where
  "run_tags run = (case tags run of None \<Rightarrow> [] | Some ts \<Rightarrow> ts)"

definition includeRun :: "LogStreamCallbackHandler \<Rightarrow> Run \<Rightarrow> bool" where
  "includeRun h run =
     (if Some (run_id run) = rootId h then False
      else
        let runTags = run_tags run;
            include0 = (includeNames h = None \<and> includeTags h = None \<and> includeTypes h = None);
            include1 = (if includeNames h \<noteq> None
                        then include0 \<or> array_includes (includeNames h) (name run) else include0);
            include2 = (if includeTypes h \<noteq> None
                        then include1 \<or> array_includes (includeTypes h) (run_type run) else include1);
            include3 = (if includeTags h \<noteq> None
                        then include2 \<or> find (\<lambda>tag. array_includes (includeTags h) tag) runTags \<noteq> None
                        else include2);
            include4 = (if excludeNames h \<noteq> None
                        then include3 \<and> \<not> array_includes (excludeNames h) (name run) else include3);
            include5 = (if excludeTypes h \<noteq> None
                        then include4 \<and> \<not> array_includes (excludeTypes h) (run_type run) else include4);
            include6 = (if excludeTags h \<noteq> None
                        then include5 \<and> list_all (\<lambda>tag. \<not> array_includes (excludeTags h) tag) runTags
                        else include5)
        in include6)"

subsection \<open>The output channel\<close>

text \<open>
  \<open>writer.write(patch)\<close> appends to the channel and fails once the writer was
  closed; \<open>writer.close()\<close> is the terminal transition. A handler that throws keeps
  the changes it made before the throw, so every handler returns the new tracer state
  together with the error it raised, if any. Backpressure (a write that waits for the
  consumer) only delays a handler and is not part of the model.
\<close>

definition writer_write :: "RunLogPatch \<Rightarrow> LogStreamCallbackHandler \<Rightarrow> LogStreamCallbackHandler \<times> error option" where
  "writer_write p h =
     (if closed h then (h, Some (TypeError ''Cannot write to a closed stream''))
      else (h\<lparr>written := written h @ [p]\<rparr>, None))"

definition writer_close :: "LogStreamCallbackHandler \<Rightarrow> LogStreamCallbackHandler \<times> error option" where
  "writer_close h =
     (if closed h then (h, Some (TypeError ''Cannot close a closed stream''))
      else (h\<lparr>closed := True\<rparr>, None))"

subsection \<open>Run keys\<close>

text \<open>The decimal numeral of a count, as the template literal \<open>`${count}`\<close> prints it.\<close>

definition digit :: "nat \<Rightarrow> char" where
  "digit d = ''0123456789'' ! d"

fun string_of_nat :: "nat \<Rightarrow> string" where
  "string_of_nat n =
     (if n < 10 then [digit n] else string_of_nat (n div 10) @ [digit (n mod 10)])"

declare string_of_nat.simps [simp del]

text \<open>Lines 437 to 443 of \<open>onRunCreate\<close>: count the run under its name and give it a key.\<close>

definition assignKey :: "Run \<Rightarrow> LogStreamCallbackHandler \<Rightarrow> LogStreamCallbackHandler" where
  "assignKey run h =
     (let c0 = (case counterMapByRunName h (name run) of None \<Rightarrow> 0 | Some c \<Rightarrow> c);
          count = c0 + 1;
          h1 = h\<lparr>counterMapByRunName := (counterMapByRunName h)(name run \<mapsto> count)\<rparr>
      in h1\<lparr>keyMapByRunId := (keyMapByRunId h1)(run_id run \<mapsto>
               (if count = 1 then name run else name run @ '':'' @ string_of_nat count))\<rparr>)"

subsection \<open>Lifecycle handlers\<close>

definition rootDocument :: "Run \<Rightarrow> jsval" where
  "rootDocument run = JObj
     [(''id'', JStr (run_id run)),
      (''name'', JStr (name run)),
      (''type'', JStr (run_type run)),
      (''streamed_output'', JArr []),
      (''final_output'', JUndefined),
      (''logs'', JObj [])]"

text \<open>
  The \<open>LogEntry\<close> of lines 445 to 460: the \<open>inputs\<close> field is assigned only under the
  \<open>streaming_events\<close> schema format.
\<close>

definition logEntry :: "LogStreamCallbackHandler \<Rightarrow> Run \<Rightarrow> error + (string \<times> jsval) list" where
  "logEntry h run =
     (let entry =
        [(''id'', JStr (run_id run)),
         (''name'', JStr (name run)),
         (''type'', JStr (run_type run)),
         (''tags'', JArr (map JStr (run_tags run))),
         (''metadata'', (case extra_metadata run of None \<Rightarrow> JObj [] | Some m \<Rightarrow> m)),
         (''start_time'', JStr (toISOString h (start_time run))),
         (''streamed_output'', JArr []),
         (''streamed_output_str'', JArr []),
         (''final_output'', JUndefined),
         (''end_time'', JUndefined)]
      in if schemaFormat h = StreamingEvents then
           (case getStandardizedInputs run (schemaFormat h) of
              Inl e \<Rightarrow> Inl e
            | Inr v \<Rightarrow> Inr (AList.update ''inputs'' v entry))
         else Inr entry)"

text \<open>The text of \<open>${this.keyMapByRunId[id]}\<close> in a template literal.\<close>

definition key_text :: "(string \<rightharpoonup> string) \<Rightarrow> string \<Rightarrow> string" where
  "key_text m k = (case m k of None \<Rightarrow> ''undefined'' | Some s \<Rightarrow> s)"

definition onRunCreate :: "Run \<Rightarrow> LogStreamCallbackHandler \<Rightarrow> LogStreamCallbackHandler \<times> error option" where
  "onRunCreate run h =
     (let (h1, e1) =
        (if rootId h = None then
           writer_write \<lparr>ops = [\<lparr>op = ''replace'', path = [], val = rootDocument run\<rparr>]\<rparr>
                 (h\<lparr>rootId := Some (run_id run)\<rparr>)
         else (h, None))
      in case e1 of
           Some e \<Rightarrow> (h1, Some e)
         | None \<Rightarrow>
             if \<not> includeRun h1 run then (h1, None)
             else
               let h2 = assignKey run h1 in
               case logEntry h2 run of
                 Inl e \<Rightarrow> (h2, Some e)
               | Inr entry \<Rightarrow>
                   writer_write \<lparr>ops = [\<lparr>op = ''add'',
                                   path = ''/logs/'' @ key_text (keyMapByRunId h2) (run_id run),
                                   val = JObj entry\<rparr>]\<rparr> h2)"

text \<open>
  \<open>onRunUpdate\<close> is a \<open>try\<close> block with a \<open>finally\<close> block: the second runs whatever
  the first did, also after its early return, and an error of the second replaces one
  of the first.
\<close>

definition onRunUpdate_try :: "Run \<Rightarrow> LogStreamCallbackHandler \<Rightarrow> LogStreamCallbackHandler \<times> error option" where
  "onRunUpdate_try run h =
     (case keyMapByRunId h (run_id run) of
        None \<Rightarrow> (h, None)
      | Some runName \<Rightarrow>
          (case (if schemaFormat h = StreamingEvents then
                   (case getStandardizedInputs run (schemaFormat h) of
                      Inl e \<Rightarrow> Inl e
                    | Inr v \<Rightarrow> Inr [\<lparr>op = ''replace'', path = ''/logs/'' @ runName @ ''/inputs'',
                                     val = v\<rparr>])
                 else Inr []) of
             Inl e \<Rightarrow> (h, Some e)
           | Inr ops1 \<Rightarrow>
               let ops2 = ops1 @ [\<lparr>op = ''add'', path = ''/logs/'' @ runName @ ''/final_output'',
                                   val = getStandardizedOutputs run (schemaFormat h)\<rparr>];
                   ops3 = (case end_time run of
                             None \<Rightarrow> ops2
                           | Some t \<Rightarrow> ops2 @ [\<lparr>op = ''add'',
                                                 path = ''/logs/'' @ runName @ ''/end_time'',
                                                 val = JStr (toISOString h t)\<rparr>])
               in writer_write \<lparr>ops = ops3\<rparr> h))"

definition onRunUpdate_finally :: "Run \<Rightarrow> LogStreamCallbackHandler \<Rightarrow> LogStreamCallbackHandler \<times> error option" where
  "onRunUpdate_finally run h =
     (if Some (run_id run) = rootId h then
        (let (h1, e1) = writer_write \<lparr>ops = [\<lparr>op = ''replace'', path = ''/final_output'',
                                         val = getStandardizedOutputs run (schemaFormat h)\<rparr>]\<rparr> h
         in case e1 of
              Some e \<Rightarrow> (h1, Some e)
            | None \<Rightarrow> if autoClose h1 then writer_close h1 else (h1, None))
      else (h, None))"

definition onRunUpdate :: "Run \<Rightarrow> LogStreamCallbackHandler \<Rightarrow> LogStreamCallbackHandler \<times> error option" where
  "onRunUpdate run h =
     (let (h1, e1) = onRunUpdate_try run h;
          (h2, e2) = onRunUpdate_finally run h1
      in (h2, case e2 of Some e \<Rightarrow> Some e | None \<Rightarrow> e1))"

text \<open>
  The property read \<open>x.k\<close> on a value that is an object or a class instance. The chunk
  of \<open>onLLMNewToken\<close> is typed as a generation chunk or absent, so no other value is
  read there.
\<close>

definition prop_read :: "jsval \<Rightarrow> string \<Rightarrow> jsval" where
  "prop_read x k = (case x of JObj kvs \<Rightarrow> get kvs k | JNew c kvs \<Rightarrow> get kvs k | _ \<Rightarrow> JUndefined)"

definition isChatGenerationChunk :: "jsval \<Rightarrow> bool" where
  "isChatGenerationChunk x = (x \<noteq> JUndefined \<and> prop_read x ''message'' \<noteq> JUndefined)"

definition onLLMNewToken :: "Run \<Rightarrow> string \<Rightarrow> jsval \<Rightarrow> LogStreamCallbackHandler \<Rightarrow> LogStreamCallbackHandler \<times> error option" where
  "onLLMNewToken run token chunk h =
     (case keyMapByRunId h (run_id run) of
        None \<Rightarrow> (h, None)
      | Some runName \<Rightarrow>
          let isChatModel = (get (inputs run) ''messages'' \<noteq> JUndefined);
              streamedOutputValue =
                (if isChatModel then
                   (if isChatGenerationChunk chunk then chunk
                    else JNew AIMessageChunk [(''content'', JStr token)])
                 else JStr token)
          in writer_write \<lparr>ops = [\<lparr>op = ''add'', path = ''/logs/'' @ runName @ ''/streamed_output_str/-'',
                               val = JStr token\<rparr>,
                             \<lparr>op = ''add'', path = ''/logs/'' @ runName @ ''/streamed_output/-'',
                               val = streamedOutputValue\<rparr>]\<rparr> h)"

text \<open>One turn of the loop of \<open>tapOutputIterable\<close>: \<open>if (key)\<close> is false for the empty key too.\<close>

definition tapOutputIterable :: "string \<Rightarrow> jsval \<Rightarrow> LogStreamCallbackHandler \<Rightarrow> LogStreamCallbackHandler \<times> error option" where
  "tapOutputIterable runId chunk h =
     (if Some runId \<noteq> rootId h then
        (case keyMapByRunId h runId of
           None \<Rightarrow> (h, None)
         | Some key \<Rightarrow>
             if key \<noteq> [] then
               writer_write \<lparr>ops = [\<lparr>op = ''add'', path = ''/logs/'' @ key @ ''/streamed_output/-'',
                                val = chunk\<rparr>]\<rparr> h
             else (h, None))
      else (h, None))"

subsection \<open>Sequences of lifecycle notifications\<close>

record LogStreamCallbackHandlerInput =
  in_autoClose :: "bool option"
  in_includeNames :: "string list option"
  in_includeTypes :: "string list option"
  in_includeTags :: "string list option"
  in_excludeNames :: "string list option"
  in_excludeTypes :: "string list option"
  in_excludeTags :: "string list option"
  in_schemaFormat :: "SchemaFormat option"

text \<open>The constructor; its first argument is the date formatter of the host.\<close>

definition new_LogStreamCallbackHandler ::
    "(int \<Rightarrow> string) \<Rightarrow> LogStreamCallbackHandlerInput \<Rightarrow> LogStreamCallbackHandler" where
  "new_LogStreamCallbackHandler fmt_date cfg =
     \<lparr>autoClose = (case in_autoClose cfg of None \<Rightarrow> True | Some b \<Rightarrow> b),
      includeNames = in_includeNames cfg,
      includeTypes = in_includeTypes cfg,
      includeTags = in_includeTags cfg,
      excludeNames = in_excludeNames cfg,
      excludeTypes = in_excludeTypes cfg,
      excludeTags = in_excludeTags cfg,
      schemaFormat = (case in_schemaFormat cfg of None \<Rightarrow> Original | Some f \<Rightarrow> f),
      rootId = None,
      keyMapByRunId = Map.empty,
      counterMapByRunName = Map.empty,
      toISOString = fmt_date,
      written = [],
      closed = False\<rparr>"

datatype event =
    RunCreate Run
  | RunUpdate Run
  | LLMNewToken Run string jsval
  | TapOutput string jsval

fun handle :: "event \<Rightarrow> LogStreamCallbackHandler \<Rightarrow> LogStreamCallbackHandler \<times> error option" where
  "handle (RunCreate run) h = onRunCreate run h"
| "handle (RunUpdate run) h = onRunUpdate run h"
| "handle (LLMNewToken run token chunk) h = onLLMNewToken run token chunk h"
| "handle (TapOutput runId chunk) h = tapOutputIterable runId chunk h"

text \<open>
  The notifications arrive one at a time; an error goes to the caller of the handler and
  the tracer stays as the handler left it.
\<close>

fun run_events :: "LogStreamCallbackHandler \<Rightarrow> event list \<Rightarrow> LogStreamCallbackHandler" where
  "run_events h [] = h"
| "run_events h (ev # evs) = run_events (fst (handle ev h)) evs"

section \<open>The patch model\<close>

text \<open>
  Modelled from the spec: \<open>applyPatch\<close> of \<open>utils/fast-json-patch\<close> is not among the
  sources. Sections 3 and 4.1 of the specification give its operations: \<open>add\<close> (append
  or set), \<open>replace\<close> (must target an existing path) and \<open>remove\<close>, at a
  slash-delimited pointer whose segments are literal keys or \<open>-\<close> for "append to
  sequence", and an application that fails as a whole when one operation is invalid.
  The source reads the result as one entry per operation, each with a \<open>newDocument\<close>
  (\<open>states[states.length - 1].newDocument\<close>), so \<open>applyPatch\<close> returns the list
  of the documents after each operation.
\<close>

fun split_on :: "char \<Rightarrow> string \<Rightarrow> string list" where
  "split_on sep [] = [[]]"
| "split_on sep (c # cs) =
     (if c = sep then [] # split_on sep cs
      else (case split_on sep cs of [] \<Rightarrow> [[c]] | s # ss \<Rightarrow> (c # s) # ss))"

definition digit_val :: "char \<Rightarrow> nat option" where
  "digit_val c =
     (let n = (of_char c :: nat) in if 48 \<le> n \<and> n \<le> 57 then Some (n - 48) else None)"

fun nat_of_digits :: "nat \<Rightarrow> string \<Rightarrow> nat option" where
  "nat_of_digits acc [] = Some acc"
| "nat_of_digits acc (c # cs) =
     (case digit_val c of None \<Rightarrow> None | Some d \<Rightarrow> nat_of_digits (10 * acc + d) cs)"

text \<open>The position a segment names in a sequence of length \<open>n\<close>.\<close>

definition array_index :: "string \<Rightarrow> nat \<Rightarrow> nat option" where
  "array_index k n =
     (if k = ''-'' then Some n else if k = [] then None else nat_of_digits 0 k)"

definition obj_apply :: "string \<Rightarrow> jsval \<Rightarrow> string \<Rightarrow> (string \<times> jsval) list \<Rightarrow> error + jsval" where
  "obj_apply opn v k kvs =
     (if opn = ''add'' then Inr (JObj (AList.update k v kvs))
      else if opn = ''replace'' then
        (if map_of kvs k = None then Inl (Error ''OPERATION_PATH_UNRESOLVABLE'')
         else Inr (JObj (AList.update k v kvs)))
      else if opn = ''remove'' then
        (if map_of kvs k = None then Inl (Error ''OPERATION_PATH_UNRESOLVABLE'')
         else Inr (JObj (AList.delete k kvs)))
      else Inl (Error ''OPERATION_OP_INVALID''))"

definition arr_apply :: "string \<Rightarrow> jsval \<Rightarrow> string \<Rightarrow> jsval list \<Rightarrow> error + jsval" where
  "arr_apply opn v k xs =
     (case array_index k (length xs) of
        None \<Rightarrow> Inl (Error ''OPERATION_PATH_ILLEGAL_ARRAY_INDEX'')
      | Some i \<Rightarrow>
          if opn = ''add'' then
            (if i \<le> length xs then Inr (JArr (take i xs @ v # drop i xs))
             else Inl (Error ''OPERATION_VALUE_OUT_OF_BOUNDS''))
          else if opn = ''replace'' then
            (if i < length xs then Inr (JArr (xs[i := v]))
             else Inl (Error ''OPERATION_PATH_UNRESOLVABLE''))
          else if opn = ''remove'' then
            (if i < length xs then Inr (JArr (take i xs @ drop (Suc i) xs))
             else Inl (Error ''OPERATION_PATH_UNRESOLVABLE''))
          else Inl (Error ''OPERATION_OP_INVALID''))"

text \<open>One operation at the segments of its pointer; the empty pointer is the whole document.\<close>

fun patch_at :: "string \<Rightarrow> jsval \<Rightarrow> string list \<Rightarrow> jsval \<Rightarrow> error + jsval" where
  "patch_at opn v [] d =
     (if opn = ''add'' \<or> opn = ''replace'' then Inr v
      else if opn = ''remove'' then Inr JNull
      else Inl (Error ''OPERATION_OP_INVALID''))"
| "patch_at opn v [k] (JObj kvs) = obj_apply opn v k kvs"
| "patch_at opn v [k] (JArr xs) = arr_apply opn v k xs"
| "patch_at opn v (k # ks) (JObj kvs) =
     (case map_of kvs k of
        None \<Rightarrow> Inl (Error ''OPERATION_PATH_UNRESOLVABLE'')
      | Some c \<Rightarrow>
          (case patch_at opn v ks c of
             Inl e \<Rightarrow> Inl e
           | Inr c' \<Rightarrow> Inr (JObj (AList.update k c' kvs))))"
| "patch_at opn v (k # ks) (JArr xs) =
     (case array_index k (length xs) of
        None \<Rightarrow> Inl (Error ''OPERATION_PATH_ILLEGAL_ARRAY_INDEX'')
      | Some i \<Rightarrow>
          if i < length xs then
            (case patch_at opn v ks (xs ! i) of
               Inl e \<Rightarrow> Inl e
             | Inr c' \<Rightarrow> Inr (JArr (xs[i := c'])))
          else Inl (Error ''OPERATION_PATH_UNRESOLVABLE''))"
| "patch_at opn v (k # ks) d = Inl (Error ''OPERATION_PATH_UNRESOLVABLE'')"

definition applyOperation :: "jsval \<Rightarrow> JSONPatchOperation \<Rightarrow> error + jsval" where
  "applyOperation document operation =
     (case split_on CHR ''/'' (path operation) of
        [] \<Rightarrow> Inl (Error ''OPERATION_PATH_INVALID'')
      | s # segs \<Rightarrow>
          if s = [] then patch_at (op operation) (val operation) segs document
          else Inl (Error ''OPERATION_PATH_INVALID''))"

fun applyPatch :: "jsval \<Rightarrow> JSONPatchOperation list \<Rightarrow> error + jsval list" where
  "applyPatch document [] = Inr []"
| "applyPatch document (operation # patch) =
     (case applyOperation document operation of
        Inl e \<Rightarrow> Inl e
      | Inr d \<Rightarrow>
          (case applyPatch d patch of
             Inl e \<Rightarrow> Inl e
           | Inr results \<Rightarrow> Inr (d # results)))"

subsection \<open>\<open>RunLogPatch\<close> and \<open>RunLog\<close>\<close>

text \<open>
  \<open>states[states.length - 1].newDocument\<close>: with no state there is no last entry, the
  index reads \<open>undefined\<close> and the property read throws.
\<close>

definition last_newDocument :: "jsval list \<Rightarrow> error + jsval" where
  "last_newDocument states =
     (if states = [] then Inl (TypeError ''Cannot read properties of undefined (reading newDocument)'')
      else Inr (last states))"

definition RunLogPatch_concat :: "'a RunLogPatch_scheme \<Rightarrow> 'b RunLogPatch_scheme \<Rightarrow> error + RunLog" where
  "RunLogPatch_concat this other =
     (let ops' = ops this @ ops other in
      case applyPatch (JObj []) ops' of
        Inl e \<Rightarrow> Inl e
      | Inr states \<Rightarrow>
          (case last_newDocument states of
             Inl e \<Rightarrow> Inl e
           | Inr d \<Rightarrow> Inr \<lparr>ops = ops', state = d\<rparr>))"

definition RunLog_concat :: "RunLog \<Rightarrow> 'b RunLogPatch_scheme \<Rightarrow> error + RunLog" where
  "RunLog_concat this other =
     (let ops' = ops this @ ops other in
      case applyPatch (state this) (ops other) of
        Inl e \<Rightarrow> Inl e
      | Inr states \<Rightarrow>
          (case last_newDocument states of
             Inl e \<Rightarrow> Inl e
           | Inr d \<Rightarrow> Inr \<lparr>ops = ops', state = d\<rparr>))"

definition fromRunLogPatch :: "'a RunLogPatch_scheme \<Rightarrow> error + RunLog" where
  "fromRunLogPatch patch =
     (case applyPatch (JObj []) (ops patch) of
        Inl e \<Rightarrow> Inl e
      | Inr states \<Rightarrow>
          (case last_newDocument states of
             Inl e \<Rightarrow> Inl e
           | Inr d \<Rightarrow> Inr \<lparr>ops = ops patch, state = d\<rparr>))"

section \<open>The marshalling protocol\<close>

definition isSuperset :: "string list \<Rightarrow> string list \<Rightarrow> bool" where
  "isSuperset st sub = list_all (\<lambda>elem. elem \<in> set st) sub"

text \<open>
  \<open>revive\<close> is a chain of tests on the keys and on the \<open>type\<close> field of a mapping, each
  with its own return. \<open>shape_of\<close> is that chain, in the order of the source, and names
  the return that is taken; \<open>SGeneric\<close> is the field-wise fallback at the end.
\<close>

datatype shape =
    SDocument
  | SMessage cls
  | SChatGenerationChunk | SChatGeneration | SGenerationChunk | SGeneration
  | SAgentAction | SAgentFinish | SLLMResult
  | SChatPromptValue | SStringPromptValue
  | SGeneric

definition message_class :: "jsval \<Rightarrow> cls option" where
  "message_class t =
     (if t = JStr ''HumanMessage'' \<or> t = JStr ''human'' then Some HumanMessage
      else if t = JStr ''SystemMessage'' \<or> t = JStr ''system'' then Some SystemMessage
      else if t = JStr ''ChatMessage'' \<or> t = JStr ''chat'' then Some ChatMessage
      else if t = JStr ''FunctionMessage'' \<or> t = JStr ''function'' then Some FunctionMessage
      else if t = JStr ''ToolMessage'' \<or> t = JStr ''tool'' then Some ToolMessage
      else if t = JStr ''AIMessage'' \<or> t = JStr ''ai'' then Some AIMessage
      else if t = JStr ''HumanMessageChunk'' then Some HumanMessageChunk
      else if t = JStr ''SystemMessageChunk'' then Some SystemMessageChunk
      else if t = JStr ''ChatMessageChunk'' then Some ChatMessageChunk
      else if t = JStr ''FunctionMessageChunk'' then Some FunctionMessageChunk
      else if t = JStr ''ToolMessageChunk'' then Some ToolMessageChunk
      else if t = JStr ''AIMessageChunk'' then Some AIMessageChunk
      else None)"

definition generation_shape :: "jsval \<Rightarrow> shape option" where
  "generation_shape t =
     (if t = JStr ''ChatGenerationChunk'' then Some SChatGenerationChunk
      else if t = JStr ''ChatGeneration'' then Some SChatGeneration
      else if t = JStr ''GenerationChunk'' then Some SGenerationChunk
      else if t = JStr ''Generation'' then Some SGeneration
      else None)"

definition shape_of :: "(string \<times> jsval) list \<Rightarrow> shape" where
  "shape_of obj =
     (let keys = Object_keys obj; t = get obj ''type'' in
      if isSuperset keys [''page_content'', ''metadata''] then SDocument
      else
        case (if isSuperset keys [''content'', ''type'', ''additional_kwargs'']
              then message_class t else None) of
          Some c \<Rightarrow> SMessage c
        | None \<Rightarrow>
            (case (if isSuperset keys [''text'', ''generation_info'', ''type'']
                   then generation_shape t else None) of
               Some s \<Rightarrow> s
             | None \<Rightarrow>
                 if isSuperset keys [''tool'', ''tool_input'', ''log'', ''type'']
                    \<and> t = JStr ''AgentAction'' then SAgentAction
                 else if isSuperset keys [''return_values'', ''log'', ''type'']
                    \<and> t = JStr ''AgentFinish'' then SAgentFinish
                 else if isSuperset keys [''generations'', ''run'', ''type'']
                    \<and> t = JStr ''LLMResult'' then SLLMResult
                 else if isSuperset keys [''messages''] then SChatPromptValue
                 else if isSuperset keys [''text''] then SStringPromptValue
                 else SGeneric))"

text \<open>The fields object a message constructor is called with, by class.\<close>

definition message_fields :: "cls \<Rightarrow> (string \<times> jsval) list \<Rightarrow> (string \<times> jsval) list" where
  "message_fields c obj =
     (if c = ChatMessage \<or> c = ChatMessageChunk then
        [(''content'', get obj ''content''), (''role'', get obj ''role'')]
      else if c = FunctionMessage \<or> c = FunctionMessageChunk then
        [(''content'', get obj ''content''), (''name'', get obj ''name'')]
      else if c = ToolMessage \<or> c = ToolMessageChunk then
        [(''content'', get obj ''content''), (''tool_call_id'', get obj ''tool_call_id'')]
      else [(''content'', get obj ''content'')])"

text \<open>
  Modelled from the spec: the constant \<open>RUN_KEY\<close> of \<open>outputs.ts\<close> is not among the
  sources and the specification does not give its text; it is taken to be \<open>__run\<close>,
  the text it has there.
\<close>

definition RUN_KEY :: string where
  "RUN_KEY = ''__run''"

text \<open>The results of a list of calls, or the first error among them.\<close>

fun sequence :: "('e + 'a) list \<Rightarrow> 'e + 'a list" where
  "sequence [] = Inr []"
| "sequence (x # xs) =
     (case x of
        Inl e \<Rightarrow> Inl e
      | Inr v \<Rightarrow> (case sequence xs of Inl e \<Rightarrow> Inl e | Inr vs \<Rightarrow> Inr (v # vs)))"

lemma size_elem_le: "x \<in> set xs \<Longrightarrow> size x \<le> size_list size xs"
  by (induction xs) auto

lemma size_get_le: "size (get kvs k) \<le> size_list (size_prod (\<lambda>_. 0) size) kvs"
  by (induction kvs) (auto simp: get_def)

lemma size_get_arr_less:
  "get kvs k = JArr ms \<Longrightarrow> m \<in> set ms \<Longrightarrow> size m < size_list (size_prod (\<lambda>_. 0) size) kvs"
  using size_get_le [of kvs k] size_elem_le [of m ms] by simp

lemma size_field_le:
  "kv \<in> set kvs \<Longrightarrow> size (snd kv) \<le> size_list (size_prod (\<lambda>_. 0) size) kvs"
  by (induction kvs) auto

text \<open>
  \<open>revive\<close>. The constructors of the domain classes are not among the sources:
  \<open>construct c fields\<close> stands for \<open>new c(fields)\<close> and gives the instance built or
  the error the constructor raises (\<open>new Document\<close> calls \<open>toString\<close> on the page
  content it is given). A class instance is an object too, and \<open>Object.keys\<close> gives
  its own fields; \<open>obj.messages.map\<close> throws when \<open>obj.messages\<close> is not an array.
\<close>

type_synonym constructor = "cls \<Rightarrow> (string \<times> jsval) list \<Rightarrow> error + jsval"

function revive :: "constructor \<Rightarrow> jsval \<Rightarrow> error + jsval"
  and revive_object :: "constructor \<Rightarrow> (string \<times> jsval) list \<Rightarrow> error + jsval" where
  "revive construct (JArr xs) =
     (case sequence (map (revive construct) xs) of Inl e \<Rightarrow> Inl e | Inr ys \<Rightarrow> Inr (JArr ys))"
| "revive construct JNull = Inr JNull"
| "revive construct (JDate t) = Inr (JDate t)"
| "revive construct (JObj obj) = revive_object construct obj"
| "revive construct (JNew c obj) = revive_object construct obj"
| "revive construct JUndefined = Inr JUndefined"
| "revive construct (JBool b) = Inr (JBool b)"
| "revive construct (JNum n) = Inr (JNum n)"
| "revive construct (JStr s) = Inr (JStr s)"
| "revive_object construct obj =
     (case shape_of obj of
        SDocument \<Rightarrow>
          construct Document [(''pageContent'', get obj ''page_content''),
                              (''metadata'', get obj ''metadata'')]
      | SMessage c \<Rightarrow> construct c (message_fields c obj)
      | SChatGenerationChunk \<Rightarrow>
          (case revive construct (get obj ''message'') of
             Inl e \<Rightarrow> Inl e
           | Inr m \<Rightarrow>
               construct ChatGenerationChunk
                 [(''message'', m), (''text'', get obj ''text''),
                  (''generationInfo'', get obj ''generation_info'')])
      | SChatGeneration \<Rightarrow>
          (case revive construct (get obj ''message'') of
             Inl e \<Rightarrow> Inl e
           | Inr m \<Rightarrow>
               Inr (JObj [(''message'', m), (''text'', get obj ''text''),
                          (''generationInfo'', get obj ''generation_info'')]))
      | SGenerationChunk \<Rightarrow>
          construct GenerationChunk
            [(''text'', get obj ''text''), (''generationInfo'', get obj ''generation_info'')]
      | SGeneration \<Rightarrow>
          Inr (JObj [(''text'', get obj ''text''), (''generationInfo'', get obj ''generation_info'')])
      | SAgentAction \<Rightarrow>
          Inr (JObj [(''tool'', get obj ''tool''), (''toolInput'', get obj ''tool_input''),
                     (''log'', get obj ''log'')])
      | SAgentFinish \<Rightarrow>
          Inr (JObj [(''returnValues'', get obj ''return_values''), (''log'', get obj ''log'')])
      | SLLMResult \<Rightarrow>
          (case revive construct (get obj ''generations'') of
             Inl e \<Rightarrow> Inl e
           | Inr g \<Rightarrow>
               Inr (JObj (AList.update RUN_KEY (get obj ''run'')
                            [(''generations'', g), (''llmOutput'', get obj ''llm_output'')])))
      | SChatPromptValue \<Rightarrow>
          (case get obj ''messages'' of
             JArr ms \<Rightarrow>
               (case sequence (map (revive construct) ms) of
                  Inl e \<Rightarrow> Inl e
                | Inr ms' \<Rightarrow> construct ChatPromptValue [(''messages'', JArr ms')])
           | _ \<Rightarrow> Inl (TypeError ''obj.messages.map is not a function''))
      | SStringPromptValue \<Rightarrow> construct StringPromptValue [(''value'', get obj ''text'')]
      | SGeneric \<Rightarrow>
          (case sequence (map (\<lambda>kv. case revive construct (snd kv) of
                                        Inl e \<Rightarrow> Inl e
                                      | Inr v \<Rightarrow> Inr (fst kv, v)) obj) of
             Inl e \<Rightarrow> Inl e
           | Inr obj' \<Rightarrow> Inr (JObj obj')))"
  by pat_completeness auto
termination
proof (relation "measure (\<lambda>x. case x of
                    Inl (construct, v) \<Rightarrow> 2 * size v
                  | Inr (construct, obj) \<Rightarrow> Suc (2 * size_list (size_prod (\<lambda>_. 0) size) obj))",
       goal_cases)
  case (2 construct xs x)
  then show ?case using size_elem_le [of x xs] by simp
next
  case (5 construct obj)
  then show ?case using size_get_le [of obj "''message''"] by simp
next
  case (6 construct obj)
  then show ?case using size_get_le [of obj "''message''"] by simp
next
  case (7 construct obj)
  then show ?case using size_get_le [of obj "''generations''"] by simp
next
  case (8 construct obj ms m)
  then show ?case using size_get_arr_less [of obj "''messages''" ms m] by simp
next
  case (9 construct obj kv)
  then show ?case using size_field_le [of kv obj] by simp
qed simp_all

subsection \<open>\<open>serialize\<close>\<close>

text \<open>
  Modelled from the spec: the message classes are not among the sources. \<open>isBaseMessage\<close>
  holds of the instances of the twelve message classes, and \<open>ToolMessage.isInstance\<close>
  and \<open>ChatMessage.isInstance\<close> (below) of the tool and chat classes and of their
  chunks: the "one extra identifying field for subtypes" of section 4.6.
\<close>

definition isBaseMessage :: "cls \<Rightarrow> bool" where
  "isBaseMessage c =
     (c \<in> set [HumanMessage, SystemMessage, ChatMessage, FunctionMessage, ToolMessage, AIMessage,
               HumanMessageChunk, SystemMessageChunk, ChatMessageChunk, FunctionMessageChunk,
               ToolMessageChunk, AIMessageChunk])"

text \<open>
  Lines 232 to 244: the mapping written for a message. \<open>getType\<close> is the method
  \<open>_getType()\<close> of the message classes; it is a parameter (\<open>message_type\<close> below is
  the one the classes have).
\<close>

definition serializedMessage :: "(cls \<Rightarrow> string) \<Rightarrow> cls \<Rightarrow> (string \<times> jsval) list \<Rightarrow> (string \<times> jsval) list" where
  "serializedMessage getType c input =
     (let m = [(''content'', get input ''content''),
               (''type'', JStr (getType c)),
               (''additional_kwargs'', get input ''additional_kwargs''),
               (''name'', get input ''name''),
               (''example'', JBool False)]
      in if c = ToolMessage \<or> c = ToolMessageChunk then
           AList.update ''tool_call_id'' (get input ''tool_call_id'') m
         else if c = ChatMessage \<or> c = ChatMessageChunk then
           AList.update ''role'' (get input ''role'') m
         else m)"

fun serialize :: "(cls \<Rightarrow> string) \<Rightarrow> jsval \<Rightarrow> jsval" where
  "serialize getType (JArr xs) = JArr (map (serialize getType) xs)"
| "serialize getType (JNew c input) =
     (if isBaseMessage c then JObj (serializedMessage getType c input)
      else JObj (map (\<lambda>kv. (fst kv, serialize getType (snd kv))) input))"
| "serialize getType (JObj input) =
     JObj (map (\<lambda>kv. (fst kv, serialize getType (snd kv))) input)"
| "serialize getType JNull = JNull"
| "serialize getType (JDate t) = JDate t"
| "serialize getType JUndefined = JUndefined"
| "serialize getType (JBool b) = JBool b"
| "serialize getType (JNum n) = JNum n"
| "serialize getType (JStr s) = JStr s"



section \<open>The remote runnable\<close>

text \<open>
  A request is the method, the address and the serialized body. The network, the
  members inherited from \<open>Runnable\<close> (\<open>runnables/base.ts\<close>) and the classes that
  \<open>serialize\<close> and \<open>revive\<close> use are parameters: \<open>fetch\<close> gives the decoded JSON of
  the response to a request, or the failure of the call. The requests issued so far are
  the state every method threads.
\<close>

record HttpRequest =
  http_method :: string
  http_url :: string
  http_body :: jsval

record Host =
  getType :: "cls \<Rightarrow> string"
  constructors :: constructor
  fetch :: "HttpRequest \<Rightarrow> error + jsval"
  separateRunnableConfigFromCallOptions ::
    "jsval \<Rightarrow> (string \<times> jsval) list \<times> (string \<times> jsval) list"

record RemoteRunnable =
  url :: string

text \<open>The constructor removes one trailing slash of the address.\<close>

definition new_RemoteRunnable :: "string \<Rightarrow> RemoteRunnable" where
  "new_RemoteRunnable u =
     \<lparr>url = (if u \<noteq> [] \<and> last u = CHR ''/'' then butlast u else u)\<rparr>"

definition post :: "Host \<Rightarrow> RemoteRunnable \<Rightarrow> string \<Rightarrow> jsval \<Rightarrow> HttpRequest list
    \<Rightarrow> (error + jsval) \<times> HttpRequest list" where
  "post host this p body trace =
     (let req = \<lparr>http_method = ''POST'', http_url = url this @ p,
                 http_body = serialize (getType host) body\<rparr>
      in (fetch host req, trace @ [req]))"

definition removeCallbacks :: "(string \<times> jsval) list \<Rightarrow> (string \<times> jsval) list" where
  "removeCallbacks options = AList.delete ''callbacks'' options"

text \<open>The object spread \<open>{...a, ...b}\<close>.\<close>

definition spread :: "(string \<times> jsval) list \<Rightarrow> (string \<times> jsval) list \<Rightarrow> (string \<times> jsval) list" where
  "spread a b = foldl (\<lambda>acc kv. AList.update (fst kv) (snd kv) acc) a b"

definition truthy :: "jsval \<Rightarrow> bool" where
  "truthy v = (v \<noteq> JUndefined \<and> v \<noteq> JNull \<and> v \<noteq> JBool False \<and> v \<noteq> JNum 0 \<and> v \<noteq> JStr [])"

text \<open>\<open>batchOptions?.returnExceptions\<close> as a condition.\<close>

definition returnExceptions :: "(string \<times> jsval) list option \<Rightarrow> bool" where
  "returnExceptions batchOptions =
     (case batchOptions of None \<Rightarrow> False | Some bo \<Rightarrow> truthy (get bo ''returnExceptions''))"

text \<open>The method \<open>_batch\<close>.\<close>

definition private_batch :: "Host \<Rightarrow> RemoteRunnable \<Rightarrow> jsval list \<Rightarrow> jsval list option
    \<Rightarrow> (string \<times> jsval) list option \<Rightarrow> HttpRequest list \<Rightarrow> (error + jsval) \<times> HttpRequest list" where
  "private_batch host this ins opts batchOptions trace =
     (if returnExceptions batchOptions then
        (Inl (Error ''returnExceptions is not supported for remote clients''), trace)
      else
        let configsAndKwargsArray =
              map_option (map (separateRunnableConfigFromCallOptions host)) opts;
            configs = map_option (map fst) configsAndKwargsArray;
            kwargs = map_option (map snd) configsAndKwargsArray;
            body = JObj
              [(''inputs'', JArr ins),
               (''config'', JArr (map (\<lambda>config. JObj (spread (removeCallbacks config)
                                            (case batchOptions of None \<Rightarrow> [] | Some bo \<Rightarrow> bo)))
                                    (case configs of None \<Rightarrow> [] | Some cs \<Rightarrow> cs))),
               (''kwargs'', (case kwargs of None \<Rightarrow> JUndefined | Some ks \<Rightarrow> JArr (map JObj ks)))];
            (response, trace') = post host this ''/batch'' body trace
        in case response of
             Inl e \<Rightarrow> (Inl e, trace')
           | Inr (JObj reply) \<Rightarrow>
               if \<not> truthy (get reply ''output'') then
                 (Inl (Error ''Invalid response from remote runnable''), trace')
               else (revive (constructors host) (get reply ''output''), trace')
           | Inr JNull \<Rightarrow> (Inl (TypeError ''Cannot read properties of null (reading output)''), trace')
           | Inr _ \<Rightarrow> (Inl (Error ''Invalid response from remote runnable''), trace'))"

text \<open>
  The method \<open>batch\<close>; \<open>batchWithConfig\<close> is the inherited \<open>_batchWithConfig\<close>, which
  is given the bound \<open>_batch\<close>.
\<close>

definition batch ::
    "((jsval list \<Rightarrow> jsval list option \<Rightarrow> (string \<times> jsval) list option \<Rightarrow> HttpRequest list
        \<Rightarrow> (error + jsval) \<times> HttpRequest list)
      \<Rightarrow> jsval list \<Rightarrow> jsval \<Rightarrow> (string \<times> jsval) list option \<Rightarrow> HttpRequest list
      \<Rightarrow> (error + jsval) \<times> HttpRequest list)
     \<Rightarrow> Host \<Rightarrow> RemoteRunnable \<Rightarrow> jsval list \<Rightarrow> jsval \<Rightarrow> (string \<times> jsval) list option
     \<Rightarrow> HttpRequest list \<Rightarrow> (error + jsval) \<times> HttpRequest list" where
  "batch batchWithConfig host this ins opts batchOptions trace =
     (if returnExceptions batchOptions then
        (Inl (Error ''returnExceptions is not supported for remote clients''), trace)
      else batchWithConfig (private_batch host this) ins opts batchOptions trace)"

section \<open>Example values\<close>

definition example_handler :: LogStreamCallbackHandler where
  "example_handler =
     new_LogStreamCallbackHandler (\<lambda>t. ''1970-01-01T00:00:00.000Z'')
       \<lparr>in_autoClose = None, in_includeNames = None, in_includeTypes = None,
        in_includeTags = None, in_excludeNames = None, in_excludeTypes = None,
        in_excludeTags = None, in_schemaFormat = Some StreamingEvents\<rparr>"

definition example_run :: "string \<Rightarrow> string \<Rightarrow> string \<Rightarrow> (string \<times> jsval) list \<Rightarrow> Run" where
  "example_run i n t ins =
     \<lparr>run_id = i, name = n, run_type = t, tags = None, extra_metadata = None,
      start_time = 0, end_time = None, inputs = ins, outputs = None\<rparr>"

text \<open>A constructor that stores the fields it is given as they are and never raises.\<close>

definition new_instance :: constructor where
  "new_instance c obj = Inr (JNew c obj)"

text \<open>
  A constructor that raises as \<open>new Document\<close> does when the page content it is given
  has a field \<open>toString\<close>, which is then not a function, and stores its fields otherwise.
\<close>

definition new_checked :: constructor where
  "new_checked c obj =
     (case (c, get obj ''pageContent'') of
        (Document, JObj content) \<Rightarrow>
          if ''toString'' \<in> set (Object_keys content)
          then Inl (TypeError ''fields.pageContent.toString is not a function'')
          else Inr (JNew c obj)
      | _ \<Rightarrow> Inr (JNew c obj))"

section \<open>Standardization layer: properties\<close>

lemma single_key_get:
  "length (Object_keys kvs) = 1 \<Longrightarrow> get kvs k \<noteq> JUndefined \<Longrightarrow> Object_keys kvs = [k]"
  by (cases kvs) (auto simp: Object_keys_def get_def split: if_splits option.splits)

lemma single_key_iff:
  "get kvs k \<noteq> JUndefined \<Longrightarrow> (length (Object_keys kvs) = 1) = (Object_keys kvs = [k])"
  using single_key_get [of kvs k] by fastforce

lemma getStandardizedInputs_general:
  assumes "run_type run \<notin> {''retriever'', ''llm'', ''prompt''}"
  shows "getStandardizedInputs run StreamingEvents =
     Inr (if Object_keys (inputs run) = [''input''] \<and> get (inputs run) ''input'' = JStr ''''
          then JUndefined else get (inputs run) ''input'')"
proof (cases "get (inputs run) ''input'' = JStr ''''")
  case True
  then have "(length (Object_keys (inputs run)) = 1) = (Object_keys (inputs run) = [''input''])"
    by (intro single_key_iff) simp
  with assms True show ?thesis
    by (simp add: getStandardizedInputs_def)
next
  case False
  with assms show ?thesis
    by (simp add: getStandardizedInputs_def)
qed

lemma getStandardizedOutputs_general:
  assumes "run_type run \<notin> {''retriever'', ''llm'', ''prompt''}" and "outputs run = Some kvs"
  shows "getStandardizedOutputs run StreamingEvents =
     (if Object_keys kvs = [''output''] \<and> get kvs ''output'' \<noteq> JUndefined
      then get kvs ''output'' else JObj kvs)"
proof (cases "get kvs ''output'' = JUndefined")
  case True
  with assms show ?thesis
    by (simp add: getStandardizedOutputs_def outputs_value_def)
next
  case False
  then have "(length (Object_keys kvs) = 1) = (Object_keys kvs = [''output''])"
    by (rule single_key_iff)
  with assms False show ?thesis
    by (simp add: getStandardizedOutputs_def outputs_value_def)
qed

text \<open>
  C2, as the code has it. Under the \<open>streaming_events\<close> format the inputs and outputs of a
  \<open>retriever\<close>, \<open>llm\<close> or \<open>prompt\<close> run are returned unchanged. For a run of another type
  the result for the inputs is always the value under key \<open>input\<close> (\<open>undefined\<close> when
  there is none, and when the only entry is \<open>input\<close> with the empty string), never the
  mapping itself; the outputs are unwrapped to the value under key \<open>output\<close> exactly when
  the mapping has the one entry \<open>output\<close> and its value is not \<open>undefined\<close>, and are
  returned unchanged otherwise.
\<close>

theorem standardized_inputs_outputs:
  "(run_type run \<in> {''retriever'', ''llm'', ''prompt''} \<longrightarrow>
      getStandardizedInputs run StreamingEvents = Inr (JObj (inputs run)) \<and>
      getStandardizedOutputs run StreamingEvents = outputs_value run) \<and>
   (run_type run \<notin> {''retriever'', ''llm'', ''prompt''} \<longrightarrow>
      getStandardizedInputs run StreamingEvents =
        Inr (if Object_keys (inputs run) = [''input''] \<and> get (inputs run) ''input'' = JStr ''''
             then JUndefined else get (inputs run) ''input'') \<and>
      getStandardizedOutputs run StreamingEvents =
        (case outputs run of
           None \<Rightarrow> JUndefined
         | Some kvs \<Rightarrow>
             if Object_keys kvs = [''output''] \<and> get kvs ''output'' \<noteq> JUndefined
             then get kvs ''output'' else JObj kvs))"
proof (intro conjI impI)
  assume "run_type run \<in> {''retriever'', ''llm'', ''prompt''}"
  then show "getStandardizedInputs run StreamingEvents = Inr (JObj (inputs run))"
    and "getStandardizedOutputs run StreamingEvents = outputs_value run"
    by (auto simp: getStandardizedInputs_def getStandardizedOutputs_def)
next
  assume other: "run_type run \<notin> {''retriever'', ''llm'', ''prompt''}"
  then show "getStandardizedInputs run StreamingEvents =
      Inr (if Object_keys (inputs run) = [''input''] \<and> get (inputs run) ''input'' = JStr ''''
           then JUndefined else get (inputs run) ''input'')"
    by (rule getStandardizedInputs_general)
  show "getStandardizedOutputs run StreamingEvents =
      (case outputs run of
         None \<Rightarrow> JUndefined
       | Some kvs \<Rightarrow>
           if Object_keys kvs = [''output''] \<and> get kvs ''output'' \<noteq> JUndefined
           then get kvs ''output'' else JObj kvs)"
  proof (cases "outputs run")
    case None
    with other show ?thesis
      by (simp add: getStandardizedOutputs_def outputs_value_def)
  next
    case (Some kvs)
    with other show ?thesis
      by (simp add: getStandardizedOutputs_general)
  qed
qed

definition llm_run :: Run where
  "llm_run = (example_run ''r1'' ''model'' ''llm'' [(''prompts'', JArr [JStr ''hi''])])
               \<lparr>outputs := Some [(''output'', JStr ''x'')]\<rparr>"

definition chain_run_wrapped :: Run where
  "chain_run_wrapped = (example_run ''r2'' ''reverse'' ''chain'' [(''input'', JStr ''hello'')])
               \<lparr>outputs := Some [(''output'', JStr ''olleh'')]\<rparr>"

theorem standardized_inputs_outputs_witness:
  "getStandardizedInputs llm_run StreamingEvents = Inr (JObj [(''prompts'', JArr [JStr ''hi''])]) \<and>
   getStandardizedOutputs llm_run StreamingEvents = JObj [(''output'', JStr ''x'')] \<and>
   getStandardizedInputs chain_run_wrapped StreamingEvents = Inr (JStr ''hello'') \<and>
   getStandardizedOutputs chain_run_wrapped StreamingEvents = JStr ''olleh''"
  using standardized_inputs_outputs [of llm_run] standardized_inputs_outputs [of chain_run_wrapped]
  by (simp add: llm_run_def chain_run_wrapped_def example_run_def outputs_value_def
        Object_keys_def get_def)

text \<open>
  C2 as stated fails: a \<open>chain\<close> run whose inputs are a mapping with two entries, none
  under key \<open>input\<close>, does not get its inputs passed through; the result is \<open>undefined\<close>.
\<close>

definition chain_run_two_inputs :: Run where
  "chain_run_two_inputs =
     example_run ''r3'' ''qa'' ''chain'' [(''question'', JStr ''q''), (''context'', JStr ''c'')]"

theorem standardized_inputs_not_passed_through:
  "run_type chain_run_two_inputs \<notin> {''retriever'', ''llm'', ''prompt''} \<and>
   Object_keys (inputs chain_run_two_inputs) \<noteq> [''input''] \<and>
   getStandardizedInputs chain_run_two_inputs StreamingEvents \<noteq> Inr (JObj (inputs chain_run_two_inputs)) \<and>
   getStandardizedInputs chain_run_two_inputs StreamingEvents = Inr JUndefined"
  by (simp add: chain_run_two_inputs_def example_run_def getStandardizedInputs_def
        Object_keys_def get_def)

text \<open>
  C9. Under the \<open>streaming_events\<close> format, for a run whose type is none of \<open>retriever\<close>,
  \<open>llm\<close>, \<open>prompt\<close> and whose inputs have exactly one key, with the empty string under
  \<open>input\<close>, \<open>_getStandardizedInputs\<close> returns \<open>undefined\<close>, and the \<open>inputs\<close> field of
  the log entry built for the run reads \<open>undefined\<close>, not the empty string.
\<close>

theorem empty_input_is_undefined:
  assumes "run_type run \<notin> {''retriever'', ''llm'', ''prompt''}"
    and "length (Object_keys (inputs run)) = 1"
    and "get (inputs run) ''input'' = JStr ''''"
    and "schemaFormat h = StreamingEvents"
  shows "getStandardizedInputs run StreamingEvents = Inr JUndefined \<and>
         (\<exists>entry. logEntry h run = Inr entry \<and> get entry ''inputs'' = JUndefined \<and>
                  get entry ''inputs'' \<noteq> JStr '''')"
proof -
  have a: "getStandardizedInputs run StreamingEvents = Inr JUndefined"
    using assms by (simp add: getStandardizedInputs_def)
  then show ?thesis
    using assms(4) by (simp add: logEntry_def get_def)
qed

definition chain_run_empty_input :: Run where
  "chain_run_empty_input = example_run ''r4'' ''stream'' ''chain'' [(''input'', JStr '''')]"

theorem empty_input_is_undefined_witness:
  "run_type chain_run_empty_input \<notin> {''retriever'', ''llm'', ''prompt''} \<and>
   length (Object_keys (inputs chain_run_empty_input)) = 1 \<and>
   get (inputs chain_run_empty_input) ''input'' = JStr '''' \<and>
   schemaFormat example_handler = StreamingEvents \<and>
   getStandardizedInputs chain_run_empty_input StreamingEvents = Inr JUndefined \<and>
   (\<exists>entry. logEntry example_handler chain_run_empty_input = Inr entry \<and>
            get entry ''inputs'' = JUndefined \<and> get entry ''inputs'' \<noteq> JStr '''')"
proof -
  have 1: "run_type chain_run_empty_input \<notin> {''retriever'', ''llm'', ''prompt''}"
    by (simp add: chain_run_empty_input_def example_run_def)
  have 2: "length (Object_keys (inputs chain_run_empty_input)) = 1"
    by (simp add: chain_run_empty_input_def example_run_def Object_keys_def)
  have 3: "get (inputs chain_run_empty_input) ''input'' = JStr ''''"
    by (simp add: chain_run_empty_input_def example_run_def get_def)
  have 4: "schemaFormat example_handler = StreamingEvents"
    by (simp add: example_handler_def new_LogStreamCallbackHandler_def)
  from empty_input_is_undefined [OF 1 2 3 4] 1 2 3 4 show ?thesis by blast
qed

section \<open>Inclusion filter: properties\<close>

lemma includeRun_unfold:
  "rootId h \<noteq> Some (run_id run) \<Longrightarrow>
   includeRun h run =
     (((includeNames h = None \<and> includeTypes h = None \<and> includeTags h = None)
        \<or> array_includes (includeNames h) (name run)
        \<or> array_includes (includeTypes h) (run_type run)
        \<or> (\<exists>t \<in> set (run_tags run). array_includes (includeTags h) t))
      \<and> \<not> array_includes (excludeNames h) (name run)
      \<and> \<not> array_includes (excludeTypes h) (run_type run)
      \<and> \<not> (\<exists>t \<in> set (run_tags run). array_includes (excludeTags h) t))"
  unfolding includeRun_def Let_def
  by (auto simp: array_includes_def find_None_iff list_all_iff split: option.splits)

text \<open>
  C3. For a run that is not the root, \<open>_includeRun\<close> is true iff no include set is
  configured or the name is in \<open>includeNames\<close> or the type is in \<open>includeTypes\<close> or
  some tag is in \<open>includeTags\<close>, and the name is in no configured \<open>excludeNames\<close>, the
  type in no configured \<open>excludeTypes\<close> and no tag in any configured \<open>excludeTags\<close>. So
  a run that matches an exclude criterion is excluded, whatever it matches besides.
\<close>

theorem includeRun_iff:
  assumes "rootId h \<noteq> Some (run_id run)"
  shows "(includeRun h run =
     (((includeNames h = None \<and> includeTypes h = None \<and> includeTags h = None)
        \<or> array_includes (includeNames h) (name run)
        \<or> array_includes (includeTypes h) (run_type run)
        \<or> (\<exists>t \<in> set (run_tags run). array_includes (includeTags h) t))
      \<and> \<not> array_includes (excludeNames h) (name run)
      \<and> \<not> array_includes (excludeTypes h) (run_type run)
      \<and> \<not> (\<exists>t \<in> set (run_tags run). array_includes (excludeTags h) t))) \<and>
    (array_includes (excludeNames h) (name run)
       \<or> array_includes (excludeTypes h) (run_type run)
       \<or> (\<exists>t \<in> set (run_tags run). array_includes (excludeTags h) t)
     \<longrightarrow> \<not> includeRun h run)"
  using includeRun_unfold [OF assms] by blast

definition filtering_handler :: LogStreamCallbackHandler where
  "filtering_handler =
     example_handler\<lparr>includeTags := Some [''my_tag''], excludeNames := Some [''2''],
                     rootId := Some ''root''\<rparr>"

definition tagged_run :: "string \<Rightarrow> Run" where
  "tagged_run n = (example_run (''id'' @ n) n ''chain'' [])\<lparr>tags := Some [''my_tag'']\<rparr>"

theorem includeRun_iff_witness:
  "rootId filtering_handler \<noteq> Some (run_id (tagged_run ''3'')) \<and>
   includeRun filtering_handler (tagged_run ''3'') \<and>
   rootId filtering_handler \<noteq> Some (run_id (tagged_run ''2'')) \<and>
   array_includes (includeTags filtering_handler) ''my_tag'' \<and>
   array_includes (excludeNames filtering_handler) (name (tagged_run ''2'')) \<and>
   \<not> includeRun filtering_handler (tagged_run ''2'')"
proof -
  have 1: "rootId filtering_handler \<noteq> Some (run_id (tagged_run ''3''))"
    and 2: "rootId filtering_handler \<noteq> Some (run_id (tagged_run ''2''))"
    by (simp_all add: filtering_handler_def tagged_run_def example_run_def)
  have 3: "array_includes (excludeNames filtering_handler) (name (tagged_run ''2''))"
    by (simp add: filtering_handler_def tagged_run_def example_run_def array_includes_def)
  have 4: "array_includes (includeTags filtering_handler) ''my_tag''"
    by (simp add: filtering_handler_def array_includes_def)
  have 5: "run_tags (tagged_run ''3'') = [''my_tag'']"
    by (simp add: tagged_run_def run_tags_def)
  have 6: "\<not> array_includes (excludeNames filtering_handler) (name (tagged_run ''3''))"
    by (simp add: filtering_handler_def tagged_run_def example_run_def array_includes_def)
  have 7: "\<not> array_includes (excludeTypes filtering_handler) t"
    and 8: "\<not> array_includes (excludeTags filtering_handler) t" for t
    by (simp_all add: filtering_handler_def example_handler_def
          new_LogStreamCallbackHandler_def array_includes_def)
  have "includeRun filtering_handler (tagged_run ''3'')"
    using includeRun_iff [OF 1] 4 5 6 7 8 by simp
  moreover have "\<not> includeRun filtering_handler (tagged_run ''2'')"
    using includeRun_iff [OF 2] 3 by blast
  ultimately show ?thesis using 1 2 3 4 by blast
qed

section \<open>Patch model: properties\<close>

lemma applyPatch_length: "applyPatch d xs = Inr rs \<Longrightarrow> length rs = length xs"
  by (induction xs arbitrary: d rs) (auto split: sum.splits)

lemma applyPatch_append:
  "applyPatch d (xs @ ys) =
     (case applyPatch d xs of
        Inl e \<Rightarrow> Inl e
      | Inr rs \<Rightarrow>
          (case applyPatch (last (d # rs)) ys of
             Inl e \<Rightarrow> Inl e
           | Inr rs' \<Rightarrow> Inr (rs @ rs')))"
  by (induction xs arbitrary: d) (auto split: sum.splits)

text \<open>
  The incremental path and the full replay agree, error for error and state for state,
  whenever the patch that is added has at least one operation.
\<close>

lemma RunLog_concat_replay:
  assumes L: "fromRunLogPatch L = Inr L" and P: "ops P \<noteq> []"
  shows "RunLog_concat L P = RunLogPatch_concat L P"
proof -
  from L obtain rs where rs: "applyPatch (JObj []) (ops L) = Inr rs" "rs \<noteq> []"
    and eq: "\<lparr>ops = ops L, state = last rs\<rparr> = L"
    by (auto simp: fromRunLogPatch_def last_newDocument_def split: sum.splits if_splits)
  have st: "state L = last rs"
    using arg_cong [OF eq, of state] by simp
  have full: "applyPatch (JObj []) (ops L @ ops P) =
      (case applyPatch (state L) (ops P) of Inl e \<Rightarrow> Inl e | Inr rs' \<Rightarrow> Inr (rs @ rs'))"
    using rs st by (simp add: applyPatch_append)
  show ?thesis
  proof (cases "applyPatch (state L) (ops P)")
    case (Inl e)
    with full show ?thesis
      by (simp add: RunLog_concat_def RunLogPatch_concat_def)
  next
    case (Inr rs')
    with P have "rs' \<noteq> []"
      using applyPatch_length [of "state L" "ops P" rs'] by auto
    with full Inr show ?thesis
      by (simp add: RunLog_concat_def RunLogPatch_concat_def last_newDocument_def)
  qed
qed

definition example_log :: RunLog where
  "example_log =
     \<lparr>ops = [\<lparr>op = ''replace'', path = [], val = rootDocument (example_run ''r0'' ''root'' ''chain'' [])\<rparr>],
      state = rootDocument (example_run ''r0'' ''root'' ''chain'' [])\<rparr>"

definition empty_patch :: RunLogPatch where
  "empty_patch = \<lparr>ops = []\<rparr>"

text \<open>
  C1 at a patch without operations: \<open>example_log\<close> holds the state its operations
  replay to, and the full replay of its operations followed by those of the empty patch
  returns that state, but \<open>RunLog.concat\<close> throws, since \<open>applyPatch\<close> gives it no
  entry to read \<open>newDocument\<close> from.
\<close>

theorem RunLog_concat_empty_patch:
  "fromRunLogPatch example_log = Inr example_log \<and>
   RunLogPatch_concat example_log empty_patch = Inr example_log \<and>
   RunLog_concat example_log empty_patch =
     Inl (TypeError ''Cannot read properties of undefined (reading newDocument)'')"
  by (simp add: fromRunLogPatch_def RunLogPatch_concat_def RunLog_concat_def example_log_def
        empty_patch_def applyOperation_def last_newDocument_def)

section \<open>Remote batch calls: properties\<close>

lemma private_batch_posts:
  "\<not> returnExceptions batchOptions \<Longrightarrow>
   \<exists>req. snd (private_batch host this ins opts batchOptions trace) = trace @ [req] \<and>
         http_url req = url this @ ''/batch''"
  by (auto simp: private_batch_def post_def Let_def split: sum.splits jsval.splits prod.splits)

text \<open>
  C8. When \<open>batchOptions.returnExceptions\<close> is \<open>true\<close>, \<open>batch\<close> and \<open>_batch\<close> both
  throw "returnExceptions is not supported for remote clients" and leave the list of
  issued requests as it was: no request is sent and the inherited batch helper is not
  entered.
\<close>

theorem batch_returnExceptions_throws:
  assumes "get bo ''returnExceptions'' = JBool True"
  shows "batch batchWithConfig host this ins opts (Some bo) trace =
           (Inl (Error ''returnExceptions is not supported for remote clients''), trace) \<and>
         private_batch host this ins opts' (Some bo) trace =
           (Inl (Error ''returnExceptions is not supported for remote clients''), trace)"
  using assms by (simp add: batch_def private_batch_def returnExceptions_def truthy_def)

definition example_host :: Host where
  "example_host =
     \<lparr>getType = (\<lambda>c. ''human''),
      constructors = (\<lambda>c obj. Inr (JNew c obj)),
      fetch = (\<lambda>req. Inr (JObj [(''output'', JArr [JStr ''ok''])])),
      separateRunnableConfigFromCallOptions = (\<lambda>v. ([], []))\<rparr>"

theorem batch_returnExceptions_throws_witness:
  "get [(''returnExceptions'', JBool True)] ''returnExceptions'' = JBool True \<and>
   batch (\<lambda>f ins opts bo tr. f ins None bo tr) example_host (new_RemoteRunnable ''http://host/chain/'')
         [JStr ''a''] JUndefined (Some [(''returnExceptions'', JBool True)]) [] =
     (Inl (Error ''returnExceptions is not supported for remote clients''), []) \<and>
   private_batch example_host (new_RemoteRunnable ''http://host/chain/'')
         [JStr ''a''] None (Some [(''returnExceptions'', JBool True)]) [] =
     (Inl (Error ''returnExceptions is not supported for remote clients''), [])"
proof -
  have g: "get [(''returnExceptions'', JBool True)] ''returnExceptions'' = JBool True"
    by (simp add: get_def)
  from batch_returnExceptions_throws [OF g] g show ?thesis by blast
qed

section \<open>Run keys: properties\<close>

text \<open>
  The key of an included run: the bare name for the first run counted under that name,
  \<open>name:n\<close> for the run that brings the count to \<open>n\<close>.
\<close>

lemma assignKey_key:
  "keyMapByRunId (assignKey run h) (run_id run) =
     Some (case counterMapByRunName h (name run) of
             None \<Rightarrow> name run
           | Some n \<Rightarrow> if n = 0 then name run else name run @ '':'' @ string_of_nat (Suc n))"
  by (simp add: assignKey_def Let_def split: option.splits)

lemma assignKey_counter:
  "counterMapByRunName (assignKey run h) (name run) =
     Some (Suc (case counterMapByRunName h (name run) of None \<Rightarrow> 0 | Some n \<Rightarrow> n))"
  by (simp add: assignKey_def Let_def)

lemma onRunCreate_key:
  assumes "rootId h \<noteq> None" and "includeRun h run"
  shows "keyMapByRunId (fst (onRunCreate run h)) (run_id run) =
     Some (case counterMapByRunName h (name run) of
             None \<Rightarrow> name run
           | Some n \<Rightarrow> if n = 0 then name run else name run @ '':'' @ string_of_nat (Suc n))"
proof -
  have "keyMapByRunId (fst (onRunCreate run h)) = keyMapByRunId (assignKey run h)"
    using assms
    by (auto simp: onRunCreate_def Let_def writer_write_def split: sum.splits)
  then show ?thesis by (simp add: assignKey_key)
qed

text \<open>The count kept for a name (none is zero), and the key written for a count.\<close>

definition counter_of :: "LogStreamCallbackHandler \<Rightarrow> string \<Rightarrow> nat" where
  "counter_of h nm = (case counterMapByRunName h nm of None \<Rightarrow> 0 | Some c \<Rightarrow> c)"

definition key_of :: "string \<Rightarrow> nat \<Rightarrow> string" where
  "key_of nm n = (if n = 1 then nm else nm @ '':'' @ string_of_nat n)"

lemma onRunCreate_included:
  assumes "rootId h \<noteq> None" and "includeRun h run"
  shows "rootId (fst (onRunCreate run h)) = rootId h"
    and "includeRun (fst (onRunCreate run h)) r = includeRun h r"
    and "keyMapByRunId (fst (onRunCreate run h)) =
           (keyMapByRunId h)(run_id run \<mapsto> key_of (name run) (Suc (counter_of h (name run))))"
    and "counter_of (fst (onRunCreate run h)) nm =
           (if nm = name run then Suc (counter_of h nm) else counter_of h nm)"
proof -
  have "\<exists>w. fst (onRunCreate run h) = (assignKey run h)\<lparr>written := w\<rparr>"
  proof (cases "logEntry (assignKey run h) run")
    case (Inl e)
    with assms have "fst (onRunCreate run h) = assignKey run h"
      by (auto simp: onRunCreate_def Let_def)
    then show ?thesis
      by (intro exI [of _ "written (assignKey run h)"]) simp
  next
    case (Inr entry)
    show ?thesis
    proof (cases "closed (assignKey run h)")
      case True
      with Inr assms have "fst (onRunCreate run h) = assignKey run h"
        by (auto simp: onRunCreate_def Let_def writer_write_def)
      then show ?thesis
        by (intro exI [of _ "written (assignKey run h)"]) simp
    next
      case False
      with Inr assms show ?thesis
        by (auto simp: onRunCreate_def Let_def writer_write_def)
    qed
  qed
  then obtain w where f: "fst (onRunCreate run h) = (assignKey run h)\<lparr>written := w\<rparr>" ..
  from f show "rootId (fst (onRunCreate run h)) = rootId h"
    by (auto simp: assignKey_def Let_def)
  from f show "includeRun (fst (onRunCreate run h)) r = includeRun h r"
    by (simp add: includeRun_def assignKey_def Let_def)
  from f show "keyMapByRunId (fst (onRunCreate run h)) =
           (keyMapByRunId h)(run_id run \<mapsto> key_of (name run) (Suc (counter_of h (name run))))"
    by (auto simp: assignKey_def Let_def key_of_def counter_of_def split: option.splits)
  from f show "counter_of (fst (onRunCreate run h)) nm =
           (if nm = name run then Suc (counter_of h nm) else counter_of h nm)"
    by (auto simp: assignKey_def Let_def counter_of_def)
qed

lemma keyMap_other_runs:
  "rootId h \<noteq> None \<Longrightarrow> \<forall>r \<in> set rs. includeRun h r \<Longrightarrow> i \<notin> run_id ` set rs \<Longrightarrow>
   keyMapByRunId (run_events h (map RunCreate rs)) i = keyMapByRunId h i"
proof (induction rs arbitrary: h)
  case Nil
  show ?case by simp
next
  case (Cons r rs)
  note c = onRunCreate_included [of h r]
  from Cons.prems have "keyMapByRunId (run_events (fst (onRunCreate r h)) (map RunCreate rs)) i =
      keyMapByRunId (fst (onRunCreate r h)) i"
    by (intro Cons.IH) (simp_all add: c)
  with Cons.prems show ?case by (simp add: c)
qed

text \<open>
  The members of \<open>Object.prototype\<close>. The two maps of the tracer are plain objects, and
  a read of one of these names in them gives the inherited member where the model
  gives \<open>undefined\<close>; the count and the key that the code then computes are text made
  from that member.
\<close>

definition Object_prototype_members :: "string list" where
  "Object_prototype_members =
     [''constructor'', ''__defineGetter__'', ''__defineSetter__'', ''hasOwnProperty'',
      ''__lookupGetter__'', ''__lookupSetter__'', ''isPrototypeOf'', ''propertyIsEnumerable'',
      ''toString'', ''valueOf'', ''__proto__'', ''toLocaleString'']"

text \<open>
  After the root, when runs with distinct ids that pass the filter are created in a
  row, each gets the key of the count its name has reached: with fresh counters, the
  bare name for the first run of a name and \<open>name:n\<close> for the \<open>n\<close>-th. This is
  stated for runs whose names and ids are not members of \<open>Object.prototype\<close>.
\<close>

lemma nth_run_key:
  "rootId h \<noteq> None \<Longrightarrow> \<forall>r \<in> set rs. includeRun h r \<Longrightarrow>
   \<forall>r \<in> set rs. name r \<notin> set Object_prototype_members \<and>
                 run_id r \<notin> set Object_prototype_members \<Longrightarrow>
   distinct (map run_id rs) \<Longrightarrow> i < length rs \<Longrightarrow>
   keyMapByRunId (run_events h (map RunCreate rs)) (run_id (rs ! i)) =
     Some (key_of (name (rs ! i))
            (counter_of h (name (rs ! i)) +
             length (filter (\<lambda>r. name r = name (rs ! i)) (take (Suc i) rs))))"
proof (induction rs arbitrary: h i)
  case Nil
  then show ?case by simp
next
  case (Cons r rs)
  note c = onRunCreate_included [of h r]
  let ?h = "fst (onRunCreate r h)"
  have h': "rootId ?h \<noteq> None" "\<forall>x \<in> set rs. includeRun ?h x"
    using Cons.prems by (simp_all add: c)
  have m: "\<forall>x \<in> set rs. name x \<notin> set Object_prototype_members \<and>
                        run_id x \<notin> set Object_prototype_members"
    using Cons.prems(3) by simp
  show ?case
  proof (cases i)
    case 0
    from Cons.prems have "run_id r \<notin> run_id ` set rs" by auto
    from keyMap_other_runs [OF h' this] Cons.prems(1,2,4,5) 0 show ?thesis
      by (simp add: c)
  next
    case (Suc j)
    with Cons.prems have "j < length rs" "distinct (map run_id rs)" by simp_all
    from Cons.IH [OF h' m this(2,1)] Cons.prems(1,2,4,5) Suc show ?thesis
      by (simp add: c)
  qed
qed

definition colliding_creations :: "event list" where
  "colliding_creations =
     [RunCreate (example_run ''r0'' ''root'' ''chain'' []),
      RunCreate (example_run ''r1'' ''a:2'' ''chain'' []),
      RunCreate (example_run ''r2'' ''a'' ''chain'' []),
      RunCreate (example_run ''r3'' ''a'' ''chain'' [])]"

text \<open>
  C5 at three included runs named \<open>a:2\<close>, \<open>a\<close>, \<open>a\<close>, created in this order after the
  root: the runs named \<open>a\<close> get the keys \<open>a\<close> and \<open>a:2\<close> as the claim says, but the
  key \<open>a:2\<close> had been assigned to the first run, so the runs \<open>r1\<close> and \<open>r3\<close> share
  one key.
\<close>

theorem run_keys_collide:
  "keyMapByRunId (run_events example_handler colliding_creations) ''r1'' = Some ''a:2'' \<and>
   keyMapByRunId (run_events example_handler colliding_creations) ''r2'' = Some ''a'' \<and>
   keyMapByRunId (run_events example_handler colliding_creations) ''r3'' = Some ''a:2'' \<and>
   map (\<lambda>p. map path (ops p)) (written (run_events example_handler colliding_creations)) =
     [[[]], [''/logs/a:2''], [''/logs/a''], [''/logs/a:2'']]"
  by (simp add: colliding_creations_def example_handler_def new_LogStreamCallbackHandler_def
        example_run_def onRunCreate_def includeRun_def assignKey_def logEntry_def
        getStandardizedInputs_def writer_write_def key_text_def Let_def run_tags_def
        string_of_nat.simps digit_def Object_keys_def get_def)

section \<open>Marshalling: properties\<close>

declare revive_object.simps [simp del]

text \<open>
  The fallback of \<open>revive\<close> and of \<open>serialize\<close> maps over the keys and reads each
  field; on an object, whose keys are distinct, that is the map over the entries which
  the definitions use.
\<close>

lemma get_Cons_other: "k' \<noteq> fst kv \<Longrightarrow> get (kv # obj) k' = get obj k'"
  by (cases kv) (simp add: get_def)

lemma entries_of_keys:
  "distinct (Object_keys obj) \<Longrightarrow>
   map (\<lambda>key. (key, f (get obj key))) (Object_keys obj) = map (\<lambda>kv. (fst kv, f (snd kv))) obj"
proof (induction obj)
  case Nil
  show ?case by (simp add: Object_keys_def)
next
  case (Cons kv obj)
  then have d: "distinct (Object_keys obj)" and n: "fst kv \<notin> set (Object_keys obj)"
    by (simp_all add: Object_keys_def)
  have "map (\<lambda>key. (key, f (get (kv # obj) key))) (Object_keys obj) =
        map (\<lambda>key. (key, f (get obj key))) (Object_keys obj)"
    using n by (intro map_cong refl) (metis get_Cons_other)
  moreover have "get (kv # obj) (fst kv) = snd kv"
    by (cases kv) (simp add: get_def)
  ultimately show ?case
    using Cons.IH [OF d] by (simp add: Object_keys_def)
qed

lemma sequence_Inl_mem: "sequence xs = Inl e \<Longrightarrow> Inl e \<in> set xs"
  by (induction xs) (auto split: sum.splits)

lemma sequence_map_Inr: "sequence (map Inr ys) = Inr ys"
  by (induction ys) auto

lemma sequence_Inr_D: "sequence xs = Inr ys \<Longrightarrow> xs = map Inr ys"
  by (induction xs arbitrary: ys) (auto split: sum.splits)

lemma sequence_Inr_iff: "(sequence xs = Inr ys) = (xs = map Inr ys)"
  using sequence_map_Inr sequence_Inr_D by blast

lemma sequence_map_total:
  "(\<And>x. x \<in> set xs \<Longrightarrow> \<exists>y. f x = Inr y) \<Longrightarrow> \<exists>ys. sequence (map f xs) = Inr ys"
proof (induction xs)
  case Nil
  show ?case by simp
next
  case (Cons x xs)
  then obtain y ys where "f x = Inr y" "sequence (map f xs) = Inr ys"
    by (metis list.set_intros(1) list.set_intros(2))
  then show ?case by simp
qed


lemma sequence_map_Inr_mem:
  "sequence (map f xs) = Inr ys \<Longrightarrow> x \<in> set xs \<Longrightarrow> \<exists>y. f x = Inr y"
  by (induction xs arbitrary: ys) (auto split: sum.splits)

lemma sequence_map_error:
  "sequence (map f xs) = Inl e \<Longrightarrow> \<exists>x \<in> set xs. f x = Inl e"
  by (induction xs) (auto split: sum.splits)

text \<open>
  The values on which \<open>obj.messages.map\<close> is never called on something that is not an
  array: every mapping that \<open>revive\<close> visits and takes for a chat prompt value holds an
  array under \<open>messages\<close>. The mappings visited are those \<open>revive\<close> is called on: the
  elements of an array, the message of a chat generation, the generations of an LLM
  result, the messages of a chat prompt value and the fields of a mapping that matches
  no signature; the other fields of a typed mapping (the metadata of a document, the
  additional kwargs of a message) are passed on as they are.
\<close>

function messages_are_arrays :: "jsval \<Rightarrow> bool"
  and messages_are_arrays_in :: "(string \<times> jsval) list \<Rightarrow> bool" where
  "messages_are_arrays (JArr xs) = list_all messages_are_arrays xs"
| "messages_are_arrays JNull = True"
| "messages_are_arrays (JDate t) = True"
| "messages_are_arrays (JObj obj) = messages_are_arrays_in obj"
| "messages_are_arrays (JNew c obj) = messages_are_arrays_in obj"
| "messages_are_arrays JUndefined = True"
| "messages_are_arrays (JBool b) = True"
| "messages_are_arrays (JNum n) = True"
| "messages_are_arrays (JStr s) = True"
| "messages_are_arrays_in obj =
     (case shape_of obj of
        SChatGenerationChunk \<Rightarrow> messages_are_arrays (get obj ''message'')
      | SChatGeneration \<Rightarrow> messages_are_arrays (get obj ''message'')
      | SLLMResult \<Rightarrow> messages_are_arrays (get obj ''generations'')
      | SChatPromptValue \<Rightarrow>
          (case get obj ''messages'' of
             JArr ms \<Rightarrow> list_all messages_are_arrays ms
           | _ \<Rightarrow> False)
      | SGeneric \<Rightarrow> list_all (\<lambda>kv. messages_are_arrays (snd kv)) obj
      | _ \<Rightarrow> True)"
  by pat_completeness auto
termination
proof (relation "measure (\<lambda>x. case x of
                    Inl v \<Rightarrow> 2 * size v
                  | Inr obj \<Rightarrow> Suc (2 * size_list (size_prod (\<lambda>_. 0) size) obj))",
       goal_cases)
  case (2 xs x)
  then show ?case using size_elem_le [of x xs] by simp
next
  case (5 obj)
  then show ?case using size_get_le [of obj "''message''"] by simp
next
  case (6 obj)
  then show ?case using size_get_le [of obj "''message''"] by simp
next
  case (7 obj)
  then show ?case using size_get_le [of obj "''generations''"] by simp
next
  case (8 obj ms m)
  then show ?case using size_get_arr_less [of obj "''messages''" ms m] by simp
next
  case (9 obj kv)
  then show ?case using size_field_le [of kv obj] by simp
qed simp_all

declare messages_are_arrays_in.simps [simp del]

lemma revive_error_source:
  "revive construct v = Inl e \<Longrightarrow>
     e = TypeError ''obj.messages.map is not a function'' \<or> (\<exists>c args. construct c args = Inl e)"
  "revive_object construct obj = Inl e \<Longrightarrow>
     e = TypeError ''obj.messages.map is not a function'' \<or> (\<exists>c args. construct c args = Inl e)"
proof (induction construct v and construct obj arbitrary: e and e rule: revive_revive_object.induct)
  case (1 construct xs)
  then obtain x where "x \<in> set xs" "revive construct x = Inl e"
    by (auto split: sum.splits dest!: sequence_map_error)
  with 1 show ?case by blast
next
  case (10 construct obj)
  show ?case
  proof (cases "shape_of obj")
    case SChatPromptValue
    show ?thesis
    proof (cases "get obj ''messages''")
      case (JArr ms)
      show ?thesis
      proof (cases "sequence (map (revive construct) ms)")
        case (Inl e')
        with "10.prems" SChatPromptValue JArr have "e' = e"
          by (simp add: revive_object.simps [of construct obj])
        with Inl obtain m where "m \<in> set ms" "revive construct m = Inl e"
          by (auto dest!: sequence_map_error)
        with "10.IH"(4) [OF SChatPromptValue JArr] show ?thesis by blast
      next
        case (Inr ms')
        with "10.prems" SChatPromptValue JArr show ?thesis
          by (auto simp: revive_object.simps [of construct obj])
      qed
    qed (use "10.prems" SChatPromptValue in \<open>auto simp: revive_object.simps [of construct obj]\<close>)
  next
    case SGeneric
    with "10.prems" obtain kv where "kv \<in> set obj" "revive construct (snd kv) = Inl e"
      by (auto simp: revive_object.simps [of construct obj] split: sum.splits
               dest!: sequence_map_error)
    with "10.IH"(5) [OF SGeneric] show ?thesis by blast
  qed (use 10 in \<open>auto simp: revive_object.simps [of construct obj] split: sum.splits\<close>)
qed auto

lemma revive_error_constructor:
  "messages_are_arrays v \<Longrightarrow> revive construct v = Inl e \<Longrightarrow> \<exists>c args. construct c args = Inl e"
  "messages_are_arrays_in obj \<Longrightarrow> revive_object construct obj = Inl e \<Longrightarrow>
     \<exists>c args. construct c args = Inl e"
proof (induction construct v and construct obj arbitrary: e and e rule: revive_revive_object.induct)
  case (1 construct xs)
  then obtain x where "x \<in> set xs" "revive construct x = Inl e"
    by (auto split: sum.splits dest!: sequence_map_error)
  with 1 show ?case by (auto simp: list_all_iff)
next
  case (10 construct obj)
  note ok = "10.prems"(1) [unfolded messages_are_arrays_in.simps [of obj]]
  note err = "10.prems"(2) [unfolded revive_object.simps [of construct obj]]
  show ?case
  proof (cases "shape_of obj")
    case SChatGenerationChunk
    with "10.IH"(1) ok err show ?thesis
      by (auto split: sum.splits)
  next
    case SChatGeneration
    with "10.IH"(2) ok err show ?thesis
      by (auto split: sum.splits)
  next
    case SLLMResult
    with "10.IH"(3) ok err show ?thesis
      by (auto split: sum.splits)
  next
    case SChatPromptValue
    with ok obtain ms where ms: "get obj ''messages'' = JArr ms" "list_all messages_are_arrays ms"
      by (auto split: jsval.splits)
    show ?thesis
    proof (cases "sequence (map (revive construct) ms)")
      case (Inl e')
      with err SChatPromptValue ms have "e' = e" by simp
      with Inl obtain m where "m \<in> set ms" "revive construct m = Inl e"
        by (auto dest!: sequence_map_error)
      with "10.IH"(4) [OF SChatPromptValue ms(1)] ms(2) show ?thesis
        by (auto simp: list_all_iff)
    next
      case (Inr ms')
      with err SChatPromptValue ms show ?thesis by auto
    qed
  next
    case SGeneric
    with err obtain kv where "kv \<in> set obj" "revive construct (snd kv) = Inl e"
      by (auto split: sum.splits dest!: sequence_map_error)
    with "10.IH"(5) [OF SGeneric] ok SGeneric show ?thesis
      by (auto simp: list_all_iff)
  qed (use err in auto)
qed auto

lemma revive_returns_only:
  "revive construct v = Inr w \<Longrightarrow> messages_are_arrays v"
  "revive_object construct obj = Inr w \<Longrightarrow> messages_are_arrays_in obj"
proof (induction construct v and construct obj arbitrary: w and w rule: revive_revive_object.induct)
  case (1 construct xs)
  then obtain ys where "sequence (map (revive construct) xs) = Inr ys"
    by (auto split: sum.splits)
  from sequence_map_Inr_mem [OF this] "1.IH" show ?case
    by (fastforce simp: list_all_iff)
next
  case (10 construct obj)
  note ret = "10.prems" [unfolded revive_object.simps [of construct obj]]
  show ?case
  proof (cases "shape_of obj")
    case SChatGenerationChunk
    with "10.IH"(1) ret show ?thesis
      by (auto simp: messages_are_arrays_in.simps [of obj] split: sum.splits)
  next
    case SChatGeneration
    with "10.IH"(2) ret show ?thesis
      by (auto simp: messages_are_arrays_in.simps [of obj] split: sum.splits)
  next
    case SLLMResult
    with "10.IH"(3) ret show ?thesis
      by (auto simp: messages_are_arrays_in.simps [of obj] split: sum.splits)
  next
    case SChatPromptValue
    with ret obtain ms ms' where ms: "get obj ''messages'' = JArr ms"
        "sequence (map (revive construct) ms) = Inr ms'"
      by (auto split: jsval.splits sum.splits)
    from sequence_map_Inr_mem [OF ms(2)] "10.IH"(4) [OF SChatPromptValue ms(1)]
    have "list_all messages_are_arrays ms"
      by (fastforce simp: list_all_iff)
    with SChatPromptValue ms(1) show ?thesis
      by (simp add: messages_are_arrays_in.simps [of obj])
  next
    case SGeneric
    with ret obtain obj' where
      seq: "sequence (map (\<lambda>kv. case revive construct (snd kv) of Inl e \<Rightarrow> Inl e
                                  | Inr v \<Rightarrow> Inr (fst kv, v)) obj) = Inr obj'"
      by (auto split: sum.splits)
    have "list_all (\<lambda>kv. messages_are_arrays (snd kv)) obj"
      unfolding list_all_iff
    proof
      fix kv assume kv: "kv \<in> set obj"
      from sequence_map_Inr_mem [OF seq kv] obtain v where "revive construct (snd kv) = Inr v"
        by (auto split: sum.splits)
      with "10.IH"(5) [OF SGeneric kv] show "messages_are_arrays (snd kv)" .
    qed
    with SGeneric show ?thesis
      by (simp add: messages_are_arrays_in.simps [of obj])
  qed (simp_all add: messages_are_arrays_in.simps [of obj])
qed auto

text \<open>A \<open>type\<close> field that is none of the discriminants \<open>revive\<close> tests for.\<close>

definition unrecognised_type :: "jsval \<Rightarrow> bool" where
  "unrecognised_type t =
     (message_class t = None \<and> generation_shape t = None \<and> t \<noteq> JStr ''AgentAction'' \<and>
      t \<noteq> JStr ''AgentFinish'' \<and> t \<noteq> JStr ''LLMResult'')"

lemma shape_of_unrecognised:
  assumes "unrecognised_type (get obj ''type'')"
    and "\<not> isSuperset (Object_keys obj) [''page_content'', ''metadata'']"
    and "''messages'' \<notin> set (Object_keys obj)"
    and "''text'' \<notin> set (Object_keys obj)"
  shows "shape_of obj = SGeneric"
  using assms by (simp add: shape_of_def unrecognised_type_def isSuperset_def Let_def)

lemma generic_fields:
  "sequence (map (\<lambda>kv. case revive construct (snd kv) of Inl e \<Rightarrow> Inl e
                       | Inr v \<Rightarrow> Inr (fst kv, v)) obj) = Inr obj' \<Longrightarrow>
   list_all2 (\<lambda>kv kv'. fst kv' = fst kv \<and> revive construct (snd kv) = Inr (snd kv')) obj obj'"
  by (induction obj arbitrary: obj') (auto split: sum.splits)

text \<open>
  The field-wise fallback: a plain mapping with the same keys and each field revived,
  or the error of the first field whose revival raises.
\<close>

lemma revive_generic:
  assumes "shape_of obj = SGeneric"
  shows "(\<exists>obj'. revive construct (JObj obj) = Inr (JObj obj') \<and>
            list_all2 (\<lambda>kv kv'. fst kv' = fst kv \<and> revive construct (snd kv) = Inr (snd kv'))
              obj obj') \<or>
         (\<exists>kv \<in> set obj. \<exists>e. revive construct (snd kv) = Inl e \<and>
            revive construct (JObj obj) = Inl e)"
proof (cases "sequence (map (\<lambda>kv. case revive construct (snd kv) of Inl e \<Rightarrow> Inl e
                                   | Inr v \<Rightarrow> Inr (fst kv, v)) obj)")
  case (Inl e)
  then obtain kv where "kv \<in> set obj" "revive construct (snd kv) = Inl e"
    by (auto split: sum.splits dest!: sequence_map_error)
  moreover from Inl assms have "revive construct (JObj obj) = Inl e"
    by (simp add: revive_object.simps [of construct obj])
  ultimately show ?thesis by blast
next
  case (Inr obj')
  with assms have "revive construct (JObj obj) = Inr (JObj obj')"
    by (simp add: revive_object.simps [of construct obj])
  with generic_fields [OF Inr] show ?thesis by blast
qed

text \<open>
  C10, as the code has it. \<open>revive\<close> raises only the \<open>TypeError\<close> of
  \<open>obj.messages.map\<close> or an error raised by a constructor it calls. It raises on every
  value in which some mapping it visits and takes for a chat prompt value holds
  something else than an array under \<open>messages\<close>; on every other value it returns
  unless a constructor raises. A mapping whose \<open>type\<close> field is not a recognised discriminant, and whose keys include
  neither \<open>messages\<close> nor \<open>text\<close> nor both \<open>page_content\<close> and \<open>metadata\<close>, is
  revived field by field, whatever signature its keys match: the result is a plain
  mapping with the same keys and each field revived, or the error that the revival of
  one of its fields raises.
\<close>

theorem revive_total_amended:
  "(revive construct v = Inl e \<longrightarrow>
      e = TypeError ''obj.messages.map is not a function'' \<or>
      (\<exists>c args. construct c args = Inl e)) \<and>
   (\<not> messages_are_arrays v \<longrightarrow> (\<exists>e'. revive construct v = Inl e')) \<and>
   (messages_are_arrays v \<longrightarrow>
      (\<exists>w'. revive construct v = Inr w') \<or>
      (\<exists>e' c args. revive construct v = Inl e' \<and> construct c args = Inl e')) \<and>
   (unrecognised_type (get obj ''type'') \<and>
    \<not> isSuperset (Object_keys obj) [''page_content'', ''metadata''] \<and>
    ''messages'' \<notin> set (Object_keys obj) \<and> ''text'' \<notin> set (Object_keys obj) \<longrightarrow>
      (\<exists>obj'. revive construct (JObj obj) = Inr (JObj obj') \<and>
         list_all2 (\<lambda>kv kv'. fst kv' = fst kv \<and> revive construct (snd kv) = Inr (snd kv'))
           obj obj') \<or>
      (\<exists>kv \<in> set obj. \<exists>e'. revive construct (snd kv) = Inl e' \<and>
         revive construct (JObj obj) = Inl e'))"
proof -
  have "messages_are_arrays v \<longrightarrow>
      (\<exists>w'. revive construct v = Inr w') \<or>
      (\<exists>e' c args. revive construct v = Inl e' \<and> construct c args = Inl e')"
    using revive_error_constructor(1) [of v construct]
    by (cases "revive construct v") auto
  moreover have "\<not> messages_are_arrays v \<longrightarrow> (\<exists>e'. revive construct v = Inl e')"
    using revive_returns_only(1) [of construct v]
    by (cases "revive construct v") auto
  ultimately show ?thesis
    using revive_error_source(1) [of construct v e]
      revive_generic [OF shape_of_unrecognised, of obj construct]
    by blast
qed

definition unknown_message :: "(string \<times> jsval) list" where
  "unknown_message =
     [(''content'', JStr ''hi''), (''type'', JStr ''developer''),
      (''additional_kwargs'', JObj [(''messages'', JArr [])])]"

definition unprintable_document :: jsval where
  "unprintable_document =
     JObj [(''page_content'', JObj [(''toString'', JNum 1)]), (''metadata'', JObj [])]"

lemma revive_unprintable_document:
  "revive new_checked unprintable_document =
     Inl (TypeError ''fields.pageContent.toString is not a function'')"
  by (simp add: unprintable_document_def revive_object.simps shape_of_def isSuperset_def
        Object_keys_def get_def new_checked_def)

lemma revive_unknown_message:
  "revive new_checked (JObj unknown_message) =
     Inr (JObj [(''content'', JStr ''hi''), (''type'', JStr ''developer''),
                (''additional_kwargs'', JNew ChatPromptValue [(''messages'', JArr [])])])"
  by (simp add: unknown_message_def revive_object.simps shape_of_def isSuperset_def
        Object_keys_def get_def new_checked_def message_class_def generation_shape_def)

theorem revive_total_amended_witness:
  "\<not> messages_are_arrays (JObj [(''messages'', JNum 1)]) \<and>
   revive new_checked (JObj [(''messages'', JNum 1)]) =
     Inl (TypeError ''obj.messages.map is not a function'') \<and>
   (\<exists>e. revive new_checked (JObj [(''messages'', JNum 1)]) = Inl e) \<and>
   revive new_checked unprintable_document =
     Inl (TypeError ''fields.pageContent.toString is not a function'') \<and>
   messages_are_arrays unprintable_document \<and>
   (\<exists>c args. new_checked c args = Inl (TypeError ''fields.pageContent.toString is not a function'')) \<and>
   isSuperset (Object_keys unknown_message) [''content'', ''type'', ''additional_kwargs''] \<and>
   unrecognised_type (get unknown_message ''type'') \<and>
   \<not> isSuperset (Object_keys unknown_message) [''page_content'', ''metadata''] \<and>
   ''messages'' \<notin> set (Object_keys unknown_message) \<and>
   ''text'' \<notin> set (Object_keys unknown_message) \<and>
   messages_are_arrays (JObj unknown_message) \<and>
   (\<exists>w. revive new_checked (JObj unknown_message) = Inr w) \<and>
   (\<exists>obj'. revive new_checked (JObj unknown_message) = Inr (JObj obj') \<and>
      list_all2 (\<lambda>kv kv'. fst kv' = fst kv \<and> revive new_checked (snd kv) = Inr (snd kv'))
        unknown_message obj')"
proof -
  let ?doc_error = "TypeError ''fields.pageContent.toString is not a function''"
  have e: "revive new_checked (JObj [(''messages'', JNum 1)]) =
      Inl (TypeError ''obj.messages.map is not a function'')"
    by (simp add: revive_object.simps shape_of_def isSuperset_def Object_keys_def get_def
          message_class_def generation_shape_def)
  have d: "messages_are_arrays unprintable_document"
    by (simp add: unprintable_document_def messages_are_arrays_in.simps shape_of_def
          isSuperset_def Object_keys_def)
  have k: "isSuperset (Object_keys unknown_message) [''content'', ''type'', ''additional_kwargs'']"
    "\<not> isSuperset (Object_keys unknown_message) [''page_content'', ''metadata'']"
    "''messages'' \<notin> set (Object_keys unknown_message)"
    "''text'' \<notin> set (Object_keys unknown_message)"
    by (simp_all add: unknown_message_def isSuperset_def Object_keys_def)
  have u: "unrecognised_type (get unknown_message ''type'')"
    by (simp add: unknown_message_def unrecognised_type_def get_def message_class_def
          generation_shape_def)
  have m: "messages_are_arrays (JObj unknown_message)"
    by (simp add: unknown_message_def messages_are_arrays_in.simps shape_of_def isSuperset_def
          Object_keys_def get_def message_class_def generation_shape_def)
  have n: "\<not> messages_are_arrays (JObj [(''messages'', JNum 1)])"
    by (simp add: messages_are_arrays_in.simps shape_of_def isSuperset_def Object_keys_def
          get_def message_class_def generation_shape_def)
  note t0 = revive_total_amended
    [of new_checked "JObj [(''messages'', JNum 1)]" ?doc_error unknown_message]
  note t1 = revive_total_amended
    [of new_checked unprintable_document ?doc_error unknown_message]
  note t2 = revive_total_amended
    [of new_checked "JObj unknown_message" ?doc_error unknown_message]
  from t0 n have x: "\<exists>e. revive new_checked (JObj [(''messages'', JNum 1)]) = Inl e"
    by blast
  from t1 revive_unprintable_document
  have c: "\<exists>c args. new_checked c args = Inl ?doc_error"
    by auto
  from t2 m revive_unknown_message
  have w: "\<exists>w. revive new_checked (JObj unknown_message) = Inr w"
    by auto
  from t2 k u revive_unknown_message
  have g: "\<exists>obj'. revive new_checked (JObj unknown_message) = Inr (JObj obj') \<and>
      list_all2 (\<lambda>kv kv'. fst kv' = fst kv \<and> revive new_checked (snd kv) = Inr (snd kv'))
        unknown_message obj'"
    by auto
  from n e x revive_unprintable_document d c k u m w g show ?thesis by blast
qed

text \<open>
  C10 as stated fails. \<open>revive\<close> raises on the JSON value \<open>{"messages": 1}\<close>, also
  when it is the field of a mapping with the keys of a message and an unknown \<open>type\<close>.
  And such a mapping is not revived field by field when it has a key \<open>text\<close>, a key
  \<open>messages\<close>, or the keys \<open>page_content\<close> and \<open>metadata\<close>: it becomes a string prompt
  value, a chat prompt value or a document.
\<close>

theorem revive_raises_or_builds_typed_value:
  "revive new_instance (JObj [(''messages'', JNum 1)]) =
     Inl (TypeError ''obj.messages.map is not a function'') \<and>
   isSuperset (Object_keys [(''content'', JStr ''hi''), (''type'', JStr ''developer''),
                            (''additional_kwargs'', JObj []), (''text'', JStr ''t'')])
              [''content'', ''type'', ''additional_kwargs''] \<and>
   message_class (JStr ''developer'') = None \<and>
   revive new_instance
     (JObj [(''content'', JStr ''hi''), (''type'', JStr ''developer''),
            (''additional_kwargs'', JObj []), (''text'', JStr ''t'')])
     = Inr (JNew StringPromptValue [(''value'', JStr ''t'')]) \<and>
   revive new_instance
     (JObj [(''content'', JObj [(''messages'', JNum 1)]), (''type'', JStr ''developer''),
            (''additional_kwargs'', JObj [])])
     = Inl (TypeError ''obj.messages.map is not a function'') \<and>
   revive new_instance
     (JObj [(''content'', JStr ''hi''), (''type'', JStr ''developer''),
            (''additional_kwargs'', JObj []), (''messages'', JArr [])])
     = Inr (JNew ChatPromptValue [(''messages'', JArr [])]) \<and>
   revive new_instance
     (JObj [(''content'', JStr ''hi''), (''type'', JStr ''developer''),
            (''additional_kwargs'', JObj []), (''page_content'', JStr ''p''),
            (''metadata'', JObj [])])
     = Inr (JNew Document [(''pageContent'', JStr ''p''), (''metadata'', JObj [])])"
  by (simp add: revive_object.simps shape_of_def isSuperset_def Object_keys_def get_def
        message_class_def generation_shape_def new_instance_def)


























lemma get_serializedMessage:
  "get (serializedMessage gt c x) ''content'' = get x ''content''"
  "get (serializedMessage gt c x) ''name'' = get x ''name''"
  "c = ToolMessage \<or> c = ToolMessageChunk \<Longrightarrow>
   get (serializedMessage gt c x) ''tool_call_id'' = get x ''tool_call_id''"
  by (auto simp: serializedMessage_def Let_def get_def)









section \<open>The root run is never a log entry\<close>

subsection \<open>Pointers\<close>

lemma split_on_nonempty: "split_on c s \<noteq> []"
  by (induction s) (auto split: list.splits)

lemma split_on_append: "split_on c (xs @ c # ys) = split_on c xs @ split_on c ys"
proof (induction xs)
  case Nil
  show ?case by simp
next
  case (Cons x xs)
  obtain s ss where "split_on c xs = s # ss"
    using split_on_nonempty [of c xs] by (cases "split_on c xs") auto
  with Cons show ?case by simp
qed

lemma split_logs: "split_on CHR ''/'' (''/logs/'' @ rest) = [] # ''logs'' # split_on CHR ''/'' rest"
  by simp

subsection \<open>One operation on a document\<close>

lemma get_update: "get (AList.update k v kvs) k' = (if k' = k then v else get kvs k')"
  by (simp add: get_def update_conv')

lemma get_delete: "get (AList.delete k kvs) k' = (if k' = k then JUndefined else get kvs k')"
  by (simp add: get_def delete_conv')

lemma list_all_update:
  "list_all (\<lambda>kv. Q (snd kv)) kvs \<Longrightarrow> Q v \<Longrightarrow> list_all (\<lambda>kv. Q (snd kv)) (AList.update k v kvs)"
  by (induction kvs) auto

lemma list_all_delete:
  "list_all (\<lambda>kv. Q (snd kv)) kvs \<Longrightarrow> list_all (\<lambda>kv. Q (snd kv)) (AList.delete k kvs)"
  by (induction kvs) auto

lemma patch_at_obj:
  "patch_at opn v (k # ks) (JObj kvs) =
     (if ks = [] then obj_apply opn v k kvs
      else case map_of kvs k of
             None \<Rightarrow> Inl (Error ''OPERATION_PATH_UNRESOLVABLE'')
           | Some c \<Rightarrow>
               (case patch_at opn v ks c of
                  Inl e \<Rightarrow> Inl e
                | Inr c' \<Rightarrow> Inr (JObj (AList.update k c' kvs))))"
  by (cases ks) auto

lemma patch_at_arr:
  "patch_at opn v (k # ks) (JArr xs) =
     (if ks = [] then arr_apply opn v k xs
      else case array_index k (length xs) of
             None \<Rightarrow> Inl (Error ''OPERATION_PATH_ILLEGAL_ARRAY_INDEX'')
           | Some i \<Rightarrow>
               if i < length xs then
                 (case patch_at opn v ks (xs ! i) of
                    Inl e \<Rightarrow> Inl e
                  | Inr c' \<Rightarrow> Inr (JArr (xs[i := c'])))
               else Inl (Error ''OPERATION_PATH_UNRESOLVABLE''))"
  by (cases ks) auto

lemma patch_at_scalar:
  "\<forall>kvs. d \<noteq> JObj kvs \<Longrightarrow> \<forall>xs. d \<noteq> JArr xs \<Longrightarrow>
   patch_at opn v (k # ks) d = Inl (Error ''OPERATION_PATH_UNRESOLVABLE'')"
  by (cases d; cases ks) auto

lemma obj_apply_Inr:
  "obj_apply opn v k kvs = Inr d \<Longrightarrow>
   d = JObj (AList.update k v kvs) \<or> d = JObj (AList.delete k kvs)"
  by (auto simp: obj_apply_def split: if_splits)

lemma arr_apply_Inr: "arr_apply opn v k xs = Inr d \<Longrightarrow> \<exists>ys. d = JArr ys"
  by (auto simp: arr_apply_def split: if_splits option.splits)

text \<open>An operation below the root of a value leaves an object an object and an array an array.\<close>

lemma patch_at_container:
  assumes "patch_at opn v (k # ks) c = Inr c'"
  shows "(\<exists>kvs. c' = JObj kvs) \<or> (\<exists>xs. c' = JArr xs)"
proof (cases c)
  case (JObj kvs)
  with assms show ?thesis
    by (auto simp: patch_at_obj split: if_splits option.splits sum.splits dest: obj_apply_Inr)
next
  case (JArr xs)
  with assms show ?thesis
    by (auto simp: patch_at_arr split: if_splits option.splits sum.splits dest: arr_apply_Inr)
qed (use assms in \<open>simp_all add: patch_at_scalar\<close>)

subsection \<open>Documents without an entry for a run\<close>

text \<open>The entries under \<open>/logs\<close> of a document, and the documents none of whose entries has a given id.\<close>

definition log_entries :: "jsval \<Rightarrow> (string \<times> jsval) list" where
  "log_entries doc = (case prop_read doc ''logs'' of JObj es \<Rightarrow> es | _ \<Rightarrow> [])"

definition no_entry_for :: "string \<Rightarrow> jsval \<Rightarrow> bool" where
  "no_entry_for rid doc =
     list_all (\<lambda>kv. prop_read (snd kv) ''id'' \<noteq> JStr rid) (log_entries doc)"

text \<open>
  The pointers the tracer writes at, by their segments: the root's \<open>final_output\<close>, an
  entry under \<open>logs\<close>, whose value must not carry the id, or a place inside an entry,
  where only the id itself is of interest.
\<close>

fun safe_segments :: "string \<Rightarrow> jsval \<Rightarrow> string list \<Rightarrow> bool" where
  "safe_segments rid v [] = False"
| "safe_segments rid v [f] = (f = ''final_output'')"
| "safe_segments rid v [l, k] = (l = ''logs'' \<and> prop_read v ''id'' \<noteq> JStr rid)"
| "safe_segments rid v [l, k, i] = (l = ''logs'' \<and> (i = ''id'' \<longrightarrow> v \<noteq> JStr rid))"
| "safe_segments rid v (l # k # i # j # r) = (l = ''logs'')"

definition safe_op :: "string \<Rightarrow> JSONPatchOperation \<Rightarrow> bool" where
  "safe_op rid operation =
     (case split_on CHR ''/'' (path operation) of
        [] \<Rightarrow> False
      | s # segs \<Rightarrow> s = [] \<and> safe_segments rid (val operation) segs)"

lemma patch_at_entry:
  assumes e: "prop_read e ''id'' \<noteq> JStr rid"
    and v: "ks = [] \<longrightarrow> k = ''id'' \<longrightarrow> v \<noteq> JStr rid"
    and p: "patch_at opn v (k # ks) e = Inr e'"
  shows "prop_read e' ''id'' \<noteq> JStr rid"
proof (cases e)
  case (JObj kvs)
  show ?thesis
  proof (cases "ks = []")
    case True
    with p JObj have "e' = JObj (AList.update k v kvs) \<or> e' = JObj (AList.delete k kvs)"
      by (auto simp: patch_at_obj dest: obj_apply_Inr)
    with e v JObj True show ?thesis
      by (auto simp: prop_read_def get_update get_delete split: if_splits)
  next
    case False
    then obtain k' ks' where ks: "ks = k' # ks'" by (cases ks) auto
    with p JObj obtain c c' where c: "patch_at opn v (k' # ks') c = Inr c'"
      and e': "e' = JObj (AList.update k c' kvs)"
      by (auto simp: patch_at_obj split: option.splits sum.splits)
    from patch_at_container [OF c] have "c' \<noteq> JStr rid" by auto
    with e e' JObj show ?thesis
      by (auto simp: prop_read_def get_update)
  qed
next
  case (JArr xs)
  with p obtain ys where "e' = JArr ys"
    using patch_at_container [OF p]
    by (auto simp: patch_at_arr split: if_splits option.splits sum.splits dest: arr_apply_Inr)
  then show ?thesis by (simp add: prop_read_def)
qed (use p in \<open>simp_all add: patch_at_scalar\<close>)

lemma array_index_logs: "array_index ''logs'' n = None"
  by (simp add: array_index_def digit_val_def)

lemma array_index_final_output: "array_index ''final_output'' n = None"
  by (simp add: array_index_def digit_val_def)

lemma patch_at_logs:
  assumes es: "list_all (\<lambda>kv. prop_read (snd kv) ''id'' \<noteq> JStr rid) es"
    and v: "ks = [] \<longrightarrow> prop_read v ''id'' \<noteq> JStr rid"
           "ks = [''id''] \<longrightarrow> v \<noteq> JStr rid"
    and p: "patch_at opn v (k # ks) (JObj es) = Inr c'"
  shows "\<exists>es'. c' = JObj es' \<and> list_all (\<lambda>kv. prop_read (snd kv) ''id'' \<noteq> JStr rid) es'"
proof (cases "ks = []")
  case True
  with p have "c' = JObj (AList.update k v es) \<or> c' = JObj (AList.delete k es)"
    by (auto simp: patch_at_obj dest: obj_apply_Inr)
  with es v(1) True show ?thesis
    using list_all_update [where Q = "\<lambda>x. prop_read x ''id'' \<noteq> JStr rid" and kvs = es and v = v and k = k]
      list_all_delete [where Q = "\<lambda>x. prop_read x ''id'' \<noteq> JStr rid" and kvs = es and k = k]
    by auto
next
  case False
  then obtain k' ks' where ks: "ks = k' # ks'" by (cases ks) auto
  with p obtain e e' where m: "map_of es k = Some e"
    and pe: "patch_at opn v (k' # ks') e = Inr e'"
    and c': "c' = JObj (AList.update k e' es)"
    by (auto simp: patch_at_obj split: option.splits sum.splits)
  from m have "(k, e) \<in> set es" by (rule map_of_SomeD)
  with es have "prop_read e ''id'' \<noteq> JStr rid"
    by (auto simp: list_all_iff)
  moreover from v(2) ks have "ks' = [] \<longrightarrow> k' = ''id'' \<longrightarrow> v \<noteq> JStr rid" by simp
  ultimately have "prop_read e' ''id'' \<noteq> JStr rid"
    using pe by (rule patch_at_entry)
  with es c' show ?thesis
    using list_all_update [where Q = "\<lambda>x. prop_read x ''id'' \<noteq> JStr rid" and kvs = es and v = e' and k = k]
    by auto
qed

lemma patch_at_arr_result:
  "patch_at opn v (k # ks) (JArr xs) = Inr c' \<Longrightarrow> \<exists>ys. c' = JArr ys"
  by (auto simp: patch_at_arr split: if_splits option.splits sum.splits dest: arr_apply_Inr)

lemma no_entry_for_arr: "no_entry_for rid (JArr ys)"
  by (simp add: no_entry_for_def log_entries_def prop_read_def)

lemma safe_segments_cases:
  "safe_segments rid v segs \<Longrightarrow>
   segs = [''final_output''] \<or>
   (\<exists>k ks. segs = ''logs'' # k # ks \<and> (ks = [] \<longrightarrow> prop_read v ''id'' \<noteq> JStr rid) \<and>
            (ks = [''id''] \<longrightarrow> v \<noteq> JStr rid))"
  by (induction rid v segs rule: safe_segments.induct) auto

lemma patch_at_final_output:
  assumes d: "no_entry_for rid d" and p: "patch_at opn v [''final_output''] d = Inr d'"
  shows "no_entry_for rid d'"
proof (cases d)
  case (JObj kvs)
  with p have "d' = JObj (AList.update ''final_output'' v kvs) \<or>
               d' = JObj (AList.delete ''final_output'' kvs)"
    by (auto simp: patch_at_obj dest: obj_apply_Inr)
  then have "log_entries d' = log_entries d"
    using JObj by (auto simp: log_entries_def prop_read_def get_update get_delete)
  with d show ?thesis by (simp add: no_entry_for_def)
next
  case (JArr xs)
  from patch_at_arr_result [OF p [unfolded JArr]] obtain ys where "d' = JArr ys" by blast
  then show ?thesis by (simp add: no_entry_for_arr)
qed (use p in \<open>simp_all add: patch_at_scalar\<close>)

lemma patch_at_under_logs:
  assumes d: "no_entry_for rid d"
    and v: "ks = [] \<longrightarrow> prop_read v ''id'' \<noteq> JStr rid" "ks = [''id''] \<longrightarrow> v \<noteq> JStr rid"
    and p: "patch_at opn v (''logs'' # k # ks) d = Inr d'"
  shows "no_entry_for rid d'"
proof (cases d)
  case (JObj kvs)
  with p obtain c c' where m: "map_of kvs ''logs'' = Some c"
    and pc: "patch_at opn v (k # ks) c = Inr c'"
    and d': "d' = JObj (AList.update ''logs'' c' kvs)"
    by (auto simp: patch_at_obj split: option.splits sum.splits)
  from d' have l': "log_entries d' = (case c' of JObj es \<Rightarrow> es | _ \<Rightarrow> [])"
    by (simp add: log_entries_def prop_read_def get_update)
  from m JObj have l: "log_entries d = (case c of JObj es \<Rightarrow> es | _ \<Rightarrow> [])"
    by (simp add: log_entries_def prop_read_def get_def)
  show ?thesis
  proof (cases c)
    case c: (JObj es)
    with d l have "list_all (\<lambda>kv. prop_read (snd kv) ''id'' \<noteq> JStr rid) es"
      by (simp add: no_entry_for_def)
    from patch_at_logs [OF this v pc [unfolded c]] l' show ?thesis
      by (auto simp: no_entry_for_def)
  next
    case c: (JArr xs)
    from patch_at_arr_result [OF pc [unfolded c]] obtain ys where "c' = JArr ys" by blast
    with l' show ?thesis by (simp add: no_entry_for_def)
  qed (use pc in \<open>simp_all add: patch_at_scalar\<close>)
next
  case (JArr xs)
  from patch_at_arr_result [OF p [unfolded JArr]] obtain ys where "d' = JArr ys" by blast
  then show ?thesis by (simp add: no_entry_for_arr)
qed (use p in \<open>simp_all add: patch_at_scalar\<close>)

lemma applyOperation_safe:
  assumes "no_entry_for rid d" and "safe_op rid operation"
    and "applyOperation d operation = Inr d'"
  shows "no_entry_for rid d'"
proof -
  from assms(2,3) obtain segs where s: "safe_segments rid (val operation) segs"
    and p: "patch_at (op operation) (val operation) segs d = Inr d'"
    by (auto simp: safe_op_def applyOperation_def split: list.splits if_splits)
  from safe_segments_cases [OF s] show ?thesis
  proof
    assume "segs = [''final_output'']"
    with p assms(1) show ?thesis by (auto intro: patch_at_final_output)
  next
    assume "\<exists>k ks. segs = ''logs'' # k # ks \<and>
              (ks = [] \<longrightarrow> prop_read (val operation) ''id'' \<noteq> JStr rid) \<and>
              (ks = [''id''] \<longrightarrow> val operation \<noteq> JStr rid)"
    with p assms(1) show ?thesis by (auto intro: patch_at_under_logs)
  qed
qed

lemma applyPatch_safe:
  "no_entry_for rid d \<Longrightarrow> list_all (safe_op rid) patch \<Longrightarrow> applyPatch d patch = Inr ds \<Longrightarrow>
   list_all (no_entry_for rid) ds"
proof (induction patch arbitrary: d ds)
  case Nil
  then show ?case by simp
next
  case (Cons operation patch)
  from Cons.prems(3) obtain d' ds' where 1: "applyOperation d operation = Inr d'"
    and 2: "applyPatch d' patch = Inr ds'" and 3: "ds = d' # ds'"
    by (auto split: sum.splits)
  from Cons.prems(1,2) 1 have "no_entry_for rid d'"
    by (auto intro: applyOperation_safe)
  with Cons.IH [OF this _ 2] Cons.prems(2) 3 show ?case by simp
qed

lemma applyOperation_root:
  "applyOperation d \<lparr>op = ''replace'', path = [], val = rootDocument run\<rparr> = Inr (rootDocument run)"
  by (simp add: applyOperation_def)

lemma no_entry_for_root: "no_entry_for rid (rootDocument run)"
  by (simp add: no_entry_for_def log_entries_def prop_read_def rootDocument_def get_def)

subsection \<open>The operations the tracer writes\<close>

lemma safe_segments_deep:
  assumes "ks \<noteq> []" and "ss \<noteq> []" and "last ss \<noteq> ''id''"
  shows "safe_segments rid v (''logs'' # ks @ ss)"
proof -
  from assms(1) obtain k ks' where ks: "ks = k # ks'" by (cases ks) auto
  show ?thesis
  proof (cases "ks' @ ss")
    case Nil
    with assms(2) show ?thesis by simp
  next
    case (Cons i r)
    show ?thesis
    proof (cases r)
      case Nil
      with Cons assms(2) have "ks' = []" "ss = [i]"
        by (auto simp: append_eq_Cons_conv)
      with assms(3) ks show ?thesis by simp
    next
      case (Cons j r')
      with \<open>ks' @ ss = i # r\<close> ks have "''logs'' # ks @ ss = ''logs'' # k # i # j # r'" by simp
      then show ?thesis by simp
    qed
  qed
qed

lemma safe_op_inside:
  assumes "last (split_on CHR ''/'' sfx) \<noteq> ''id''"
  shows "safe_op rid \<lparr>op = opn, path = ''/logs/'' @ key @ CHR ''/'' # sfx, val = v\<rparr>"
proof -
  have "split_on CHR ''/'' (''/logs/'' @ key @ CHR ''/'' # sfx) =
          [] # ''logs'' # split_on CHR ''/'' key @ split_on CHR ''/'' sfx"
    by (simp only: split_logs split_on_append)
  moreover have "safe_segments rid v (''logs'' # split_on CHR ''/'' key @ split_on CHR ''/'' sfx)"
    using assms by (intro safe_segments_deep split_on_nonempty)
  ultimately show ?thesis by (simp add: safe_op_def)
qed

lemma safe_op_entry:
  assumes "prop_read v ''id'' \<noteq> JStr rid" and "v \<noteq> JStr rid"
  shows "safe_op rid \<lparr>op = opn, path = ''/logs/'' @ key, val = v\<rparr>"
proof -
  obtain k r where kr: "split_on CHR ''/'' key = k # r"
    using split_on_nonempty [of "CHR ''/''" key] by (cases "split_on CHR ''/'' key") auto
  have "safe_segments rid v (''logs'' # k # r)"
  proof (cases r)
    case Nil
    with assms show ?thesis by simp
  next
    case (Cons i r')
    with assms show ?thesis by (cases r') simp_all
  qed
  with kr show ?thesis
    by (simp add: safe_op_def)
qed

lemma safe_op_final_output:
  "safe_op rid \<lparr>op = opn, path = ''/final_output'', val = v\<rparr>"
  by (simp add: safe_op_def)

lemmas safe_op_written = safe_op_inside [simplified] safe_op_entry [simplified] safe_op_final_output

subsection \<open>The tracer's invariant\<close>

definition written_ops :: "LogStreamCallbackHandler \<Rightarrow> JSONPatchOperation list" where
  "written_ops h = concat (map ops (written h))"

text \<open>
  Before the first run is created nothing was written and no run has a key. From then
  on the root has no key, and what was written is the \<open>replace\<close> of the whole document
  by the document of the root run, followed by operations that leave the entries under
  \<open>/logs\<close> free of the root's id.
\<close>

definition tracer_inv :: "LogStreamCallbackHandler \<Rightarrow> bool" where
  "tracer_inv h =
     (case rootId h of
        None \<Rightarrow> written h = [] \<and> keyMapByRunId h = Map.empty \<and> \<not> closed h
      | Some rid \<Rightarrow>
          keyMapByRunId h rid = None \<and>
          (\<exists>run rest. run_id run = rid \<and>
             written_ops h = \<lparr>op = ''replace'', path = [], val = rootDocument run\<rparr> # rest \<and>
             list_all (safe_op rid) rest))"

lemma tracer_inv_new: "tracer_inv (new_LogStreamCallbackHandler fmt_date cfg)"
  by (simp add: tracer_inv_def new_LogStreamCallbackHandler_def)

lemma tracer_inv_write:
  assumes "tracer_inv h" and "rootId h = Some rid" and "list_all (safe_op rid) (ops p)"
  shows "tracer_inv (fst (writer_write p h))"
  using assms by (auto simp: tracer_inv_def writer_write_def written_ops_def)

lemma writer_write_rootId [simp]: "rootId (fst (writer_write p h)) = rootId h"
  by (simp add: writer_write_def)

lemma writer_close_inv: "rootId h \<noteq> None \<Longrightarrow> tracer_inv h \<Longrightarrow> tracer_inv (fst (writer_close h))"
  by (auto simp: tracer_inv_def writer_close_def written_ops_def)

lemma logEntry_id: "logEntry h run = Inr entry \<Longrightarrow> get entry ''id'' = JStr (run_id run)"
  by (auto simp: logEntry_def Let_def get_update get_def split: if_splits sum.splits)

lemma assignKey_inv:
  assumes "tracer_inv h" and "rootId h = Some rid" and "run_id run \<noteq> rid"
  shows "tracer_inv (assignKey run h)" and "rootId (assignKey run h) = Some rid"
  using assms by (auto simp: tracer_inv_def assignKey_def Let_def written_ops_def)

lemma key_text_assignKey:
  "key_text (keyMapByRunId (assignKey run h)) (run_id run) =
     (case counterMapByRunName h (name run) of
        None \<Rightarrow> name run
      | Some n \<Rightarrow> if n = 0 then name run else name run @ '':'' @ string_of_nat (Suc n))"
  by (simp add: key_text_def assignKey_def Let_def split: option.splits)

lemma onRunCreate_first:
  assumes "tracer_inv h" and "rootId h = None"
  shows "tracer_inv (fst (onRunCreate run h))"
  using assms
  by (auto simp: tracer_inv_def onRunCreate_def writer_write_def includeRun_def written_ops_def)

lemma onRunCreate_later:
  assumes inv: "tracer_inv h" and root: "rootId h = Some rid"
  shows "tracer_inv (fst (onRunCreate run h))"
proof (cases "includeRun h run")
  case False
  with inv root show ?thesis by (simp add: onRunCreate_def)
next
  case True
  with root have ne: "run_id run \<noteq> rid"
    by (auto simp: includeRun_def)
  note a = assignKey_inv [OF inv root ne]
  show ?thesis
  proof (cases "logEntry (assignKey run h) run")
    case (Inl e)
    with True root a show ?thesis by (simp add: onRunCreate_def Let_def)
  next
    case (Inr entry)
    from logEntry_id [OF Inr] ne have "prop_read (JObj entry) ''id'' \<noteq> JStr rid"
      by (simp add: prop_read_def)
    then have "safe_op rid \<lparr>op = ''add'',
        path = ''/logs/'' @ key_text (keyMapByRunId (assignKey run h)) (run_id run),
        val = JObj entry\<rparr>"
      by (intro safe_op_entry) simp_all
    then have "tracer_inv (fst (writer_write
        \<lparr>ops = [\<lparr>op = ''add'',
                 path = ''/logs/'' @ key_text (keyMapByRunId (assignKey run h)) (run_id run),
                 val = JObj entry\<rparr>]\<rparr> (assignKey run h)))"
      using a by (intro tracer_inv_write [where rid = rid]) simp_all
    with True root Inr show ?thesis by (simp add: onRunCreate_def Let_def)
  qed
qed

lemma onRunCreate_inv: "tracer_inv h \<Longrightarrow> tracer_inv (fst (onRunCreate run h))"
  by (cases "rootId h") (auto intro: onRunCreate_first onRunCreate_later)

lemma keyed_has_root:
  "tracer_inv h \<Longrightarrow> keyMapByRunId h i = Some key \<Longrightarrow> \<exists>rid. rootId h = Some rid"
  by (cases "rootId h") (auto simp: tracer_inv_def)

lemma onRunUpdate_try_inv:
  assumes inv: "tracer_inv h"
  shows "tracer_inv (fst (onRunUpdate_try run h))"
proof (cases "keyMapByRunId h (run_id run)")
  case None
  with inv show ?thesis by (simp add: onRunUpdate_try_def)
next
  case (Some runName)
  with inv obtain rid where root: "rootId h = Some rid"
    by (auto dest: keyed_has_root)
  have w: "list_all (safe_op rid) patch \<Longrightarrow> tracer_inv (fst (writer_write \<lparr>ops = patch\<rparr> h))" for patch
    using inv root by (intro tracer_inv_write [where rid = rid]) simp_all
  show ?thesis
    using Some inv
    by (auto simp: onRunUpdate_try_def Let_def split: option.splits sum.splits
          intro!: w safe_op_written)
qed

lemma onRunUpdate_try_rootId [simp]: "rootId (fst (onRunUpdate_try run h)) = rootId h"
  by (auto simp: onRunUpdate_try_def Let_def split: option.splits sum.splits)

lemma onRunUpdate_finally_inv:
  assumes inv: "tracer_inv h"
  shows "tracer_inv (fst (onRunUpdate_finally run h))"
proof (cases "Some (run_id run) = rootId h")
  case False
  with inv show ?thesis by (simp add: onRunUpdate_finally_def)
next
  case True
  let ?p = "\<lparr>ops = [\<lparr>op = ''replace'', path = ''/final_output'',
                       val = getStandardizedOutputs run (schemaFormat h)\<rparr>]\<rparr>"
  have "tracer_inv (fst (writer_write ?p h))"
    using inv True [symmetric]
    by (intro tracer_inv_write [where rid = "run_id run"]) (simp_all add: safe_op_final_output)
  moreover from this True have "tracer_inv (fst (writer_close (fst (writer_write ?p h))))"
    by (intro writer_close_inv) (simp_all add: True [symmetric])
  ultimately show ?thesis
    using True
    by (auto simp: onRunUpdate_finally_def Let_def split: prod.splits option.splits)
qed

lemma onRunUpdate_inv: "tracer_inv h \<Longrightarrow> tracer_inv (fst (onRunUpdate run h))"
  using onRunUpdate_finally_inv [OF onRunUpdate_try_inv, of h run run]
  by (simp add: onRunUpdate_def Let_def case_prod_beta)

lemma onLLMNewToken_inv:
  assumes inv: "tracer_inv h"
  shows "tracer_inv (fst (onLLMNewToken run token chunk h))"
proof (cases "keyMapByRunId h (run_id run)")
  case None
  with inv show ?thesis by (simp add: onLLMNewToken_def)
next
  case (Some runName)
  with inv obtain rid where root: "rootId h = Some rid"
    by (auto dest: keyed_has_root)
  have w: "list_all (safe_op rid) patch \<Longrightarrow> tracer_inv (fst (writer_write \<lparr>ops = patch\<rparr> h))" for patch
    using inv root by (intro tracer_inv_write [where rid = rid]) simp_all
  show ?thesis
    using Some inv
    by (auto simp: onLLMNewToken_def Let_def intro!: w safe_op_written)
qed

lemma tapOutputIterable_inv:
  assumes inv: "tracer_inv h"
  shows "tracer_inv (fst (tapOutputIterable runId chunk h))"
proof (cases "keyMapByRunId h runId")
  case None
  with inv show ?thesis by (simp add: tapOutputIterable_def)
next
  case (Some key)
  with inv obtain rid where root: "rootId h = Some rid"
    by (auto dest: keyed_has_root)
  have w: "list_all (safe_op rid) patch \<Longrightarrow> tracer_inv (fst (writer_write \<lparr>ops = patch\<rparr> h))" for patch
    using inv root by (intro tracer_inv_write [where rid = rid]) simp_all
  show ?thesis
    using Some inv
    by (auto simp: tapOutputIterable_def Let_def intro!: w safe_op_written)
qed

lemma handle_inv: "tracer_inv h \<Longrightarrow> tracer_inv (fst (handle ev h))"
  by (cases ev)
    (simp_all add: onRunCreate_inv onRunUpdate_inv onLLMNewToken_inv tapOutputIterable_inv)

lemma run_events_inv: "tracer_inv h \<Longrightarrow> tracer_inv (run_events h evs)"
  by (induction evs arbitrary: h) (simp_all add: handle_inv)

lemma replay_written:
  assumes inv: "tracer_inv h" and root: "rootId h = Some rid"
    and ap: "applyPatch (JObj []) (written_ops h) = Inr states"
  shows "states \<noteq> [] \<and> prop_read (hd states) ''id'' = JStr rid \<and>
         list_all (no_entry_for rid) states"
proof -
  from inv root obtain run rest where run: "run_id run = rid"
    and w: "written_ops h = \<lparr>op = ''replace'', path = [], val = rootDocument run\<rparr> # rest"
    and safe: "list_all (safe_op rid) rest"
    by (auto simp: tracer_inv_def)
  from ap w obtain ds where ds: "applyPatch (rootDocument run) rest = Inr ds"
    and st: "states = rootDocument run # ds"
    by (auto simp: applyOperation_root split: sum.splits)
  from applyPatch_safe [OF no_entry_for_root safe ds] st run show ?thesis
    by (simp add: no_entry_for_root) (simp add: rootDocument_def prop_read_def get_def)
qed

text \<open>
  C4. Whatever the filters and whatever notifications arrived since the tracer was
  constructed, once a root run is known \<open>_includeRun\<close> is false of every run with the
  root's id and the root has no key. Whenever the operations written so far apply to
  the empty document, the first document is the root's own and no document on the way
  has an entry under \<open>/logs\<close> whose id is the root's.
\<close>

theorem root_never_logged:
  assumes "h = run_events (new_LogStreamCallbackHandler fmt_date cfg) evs"
    and "rootId h = Some rid"
  shows "(\<forall>run. run_id run = rid \<longrightarrow> \<not> includeRun h run) \<and>
         keyMapByRunId h rid = None \<and>
         (\<forall>states. applyPatch (JObj []) (written_ops h) = Inr states \<longrightarrow>
            states \<noteq> [] \<and> prop_read (hd states) ''id'' = JStr rid \<and>
            list_all (no_entry_for rid) states)"
proof -
  have inv: "tracer_inv h"
    unfolding assms(1) by (intro run_events_inv tracer_inv_new)
  then have "keyMapByRunId h rid = None"
    using assms(2) by (simp add: tracer_inv_def)
  moreover have "\<forall>run. run_id run = rid \<longrightarrow> \<not> includeRun h run"
    using assms(2) by (auto simp: includeRun_def)
  ultimately show ?thesis
    using replay_written [OF inv assms(2)] by blast
qed

definition traced_events :: "event list" where
  "traced_events =
     [RunCreate (example_run ''r0'' ''root'' ''chain'' [(''input'', JStr ''hello'')]),
      RunCreate (example_run ''r1'' ''reverse'' ''chain'' [(''input'', JStr ''hello'')]),
      TapOutput ''r1'' (JStr ''olleh''),
      RunUpdate ((example_run ''r1'' ''reverse'' ''chain'' [(''input'', JStr ''hello'')])
                   \<lparr>end_time := Some 1, outputs := Some [(''output'', JStr ''olleh'')]\<rparr>),
      RunUpdate ((example_run ''r0'' ''root'' ''chain'' [(''input'', JStr ''hello'')])
                   \<lparr>end_time := Some 2, outputs := Some [(''output'', JStr ''olleh'')]\<rparr>)]"

lemmas tracer_defs =
  traced_events_def example_handler_def new_LogStreamCallbackHandler_def example_run_def
  onRunCreate_def onRunUpdate_def onRunUpdate_try_def onRunUpdate_finally_def
  tapOutputIterable_def includeRun_def assignKey_def logEntry_def getStandardizedInputs_def
  getStandardizedOutputs_def outputs_value_def writer_write_def writer_close_def key_text_def
  Let_def run_tags_def Object_keys_def get_def written_ops_def

theorem root_never_logged_witness:
  "rootId (run_events example_handler traced_events) = Some ''r0'' \<and>
   \<not> includeRun (run_events example_handler traced_events) (example_run ''r0'' ''root'' ''chain'' []) \<and>
   keyMapByRunId (run_events example_handler traced_events) ''r0'' = None \<and>
   (\<exists>states. applyPatch (JObj []) (written_ops (run_events example_handler traced_events)) = Inr states \<and>
      map fst (log_entries (last states)) = [''reverse''] \<and>
      list_all (no_entry_for ''r0'') states)"
proof -
  define h where "h = run_events example_handler traced_events"
  have h: "h = run_events (new_LogStreamCallbackHandler (\<lambda>t. ''1970-01-01T00:00:00.000Z'')
       \<lparr>in_autoClose = None, in_includeNames = None, in_includeTypes = None,
        in_includeTags = None, in_excludeNames = None, in_excludeTypes = None,
        in_excludeTags = None, in_schemaFormat = Some StreamingEvents\<rparr>) traced_events"
    by (simp add: h_def example_handler_def)
  have r: "rootId h = Some ''r0''"
    by (simp add: h_def tracer_defs)
  have "\<exists>states. applyPatch (JObj []) (written_ops h) = Inr states \<and>
          map fst (log_entries (last states)) = [''reverse'']"
    by (simp add: h_def tracer_defs applyOperation_def rootDocument_def obj_apply_def
          arr_apply_def array_index_def log_entries_def prop_read_def)
  with root_never_logged [OF h r] r
  have "rootId h = Some ''r0'' \<and>
        \<not> includeRun h (example_run ''r0'' ''root'' ''chain'' []) \<and>
        keyMapByRunId h ''r0'' = None \<and>
        (\<exists>states. applyPatch (JObj []) (written_ops h) = Inr states \<and>
           map fst (log_entries (last states)) = [''reverse''] \<and>
           list_all (no_entry_for ''r0'') states)"
    by (auto simp: example_run_def)
  then show ?thesis unfolding h_def by blast
qed

end
